theory Spec2Isabelle
  imports Complex_Main "HOL-Library.Word" "HOL-Library.Multiset"
begin

section \<open>Calibration for post-training quantization (calibrate.py)\<close>

text \<open>
  A shallow embedding of \<^verbatim>\<open>onnxruntime/python/tools/quantization/calibrate.py\<close>.

  Conventions of the embedding.
  \<^item> Python exceptions are values of \<open>error\<close>; a function that can raise returns
    \<open>error + 'a\<close> with \<open>Inl\<close> the exception.
  \<^item> A floating-point scalar that the session returns or the statistics hold (a 0-d
    tensor, a Python \<open>float\<close>) is a \<open>pyfloat\<close>: a finite value, which is a real number, or
    NaN. The comparisons of finite floats are exactly those of the reals; a comparison
    with NaN is false and arithmetic on NaN gives NaN. Infinities are not represented.
  \<^item> The arithmetic of \<open>calculate_scale_zeropoint\<close> on finite values is exact: the value
    computed for a scale is the nominal one, before the rounding of \<open>np.float32(...)\<close>,
    which is not represented (nor is its underflow to \<open>0.0\<close>).
  \<^item> A Python \<open>dict\<close> is an association list with distinct keys in insertion order.
  \<^item> \<open>np.uint8\<close> is \<open>8 word\<close>.
  \<^item> A model object that is mutated in place lives in a store (a list of objects); a
    reference is an index into the store.
\<close>

subsection \<open>Exceptions\<close>

datatype error =
    IndexError          \<comment> \<open>sequence index out of range\<close>
  | KeyError            \<comment> \<open>missing dictionary key\<close>
  | ValueError          \<comment> \<open>raised by the source itself, and by \<open>min([])\<close>\<close>
  | FileNotFoundError   \<comment> \<open>\<open>onnx.load\<close> of a path that holds no model\<close>
  | RuntimeException    \<comment> \<open>a failure of the inference session\<close>

subsection \<open>Floating-point values\<close>

datatype pyfloat = Finite real | NaN

text \<open>\<open>a < b\<close> on floats: false as soon as one side is NaN.\<close>

fun float_less :: "pyfloat \<Rightarrow> pyfloat \<Rightarrow> bool" where
  "float_less (Finite a) (Finite b) = (a < b)"
| "float_less _ _ = False"

subsection \<open>The ONNX data model (the fields the source reads and writes)\<close>

record attribute_proto =
  attr_name :: string
  attr_f :: real      \<comment> \<open>\<open>.f\<close>\<close>
  attr_i :: int       \<comment> \<open>\<open>.i\<close>\<close>

record node_proto =
  op_type :: string
  name :: string
  node_input :: "string list"     \<comment> \<open>\<open>.input\<close>\<close>
  node_output :: "string list"    \<comment> \<open>\<open>.output\<close>\<close>
  attribute :: "attribute_proto list"

record value_info_proto =
  value_name :: string
  elem_type :: int
  shape :: "int list"

record graph_proto =
  node :: "node_proto list"
  graph_output :: "value_info_proto list"   \<comment> \<open>\<open>graph.output\<close>\<close>

record model_proto =
  graph :: graph_proto

text \<open>\<open>TensorProto.FLOAT\<close>.\<close>

definition FLOAT :: int where
  "FLOAT = 1"

text \<open>\<open>onnx.helper.make_node(op_type, inputs, outputs, name, keepdims=k)\<close>.\<close>

definition make_node :: "string \<Rightarrow> string list \<Rightarrow> string list \<Rightarrow> string \<Rightarrow> int \<Rightarrow> node_proto" where
  "make_node ty ins outs nm keepdims =
     \<lparr>op_type = ty, name = nm, node_input = ins, node_output = outs,
      attribute = [\<lparr>attr_name = ''keepdims'', attr_f = 0, attr_i = keepdims\<rparr>]\<rparr>"

text \<open>\<open>onnx.helper.make_tensor_value_info(name, elem_type, shape)\<close>.\<close>

definition make_tensor_value_info :: "string \<Rightarrow> int \<Rightarrow> int list \<Rightarrow> value_info_proto" where
  "make_tensor_value_info nm ty shp = \<lparr>value_name = nm, elem_type = ty, shape = shp\<rparr>"

subsection \<open>\<open>augment_graph\<close>\<close>

definition quantization_candidates :: "string list" where
  "quantization_candidates = [''Conv'', ''MatMul'']"

text \<open>
  The loop of \<open>augment_graph\<close> over \<open>model.graph.node\<close>, with its two accumulators
  \<open>added_nodes\<close> and \<open>added_outputs\<close>. \<open>node.output[0]\<close> raises on a node without
  outputs.
\<close>

fun augment_loop ::
  "node_proto list \<Rightarrow> node_proto list \<Rightarrow> value_info_proto list
     \<Rightarrow> error + (node_proto list \<times> value_info_proto list)" where
  "augment_loop [] added_nodes added_outputs = Inr (added_nodes, added_outputs)"
| "augment_loop (n # ns) added_nodes added_outputs =
     (if op_type n \<in> set quantization_candidates then
        (case node_output n of
           [] \<Rightarrow> Inl IndexError
         | input_name # _ \<Rightarrow>
             let reduce_min_name = name n @ ''_ReduceMin'';
                 reduce_min_node = make_node ''ReduceMin'' [input_name]
                                     [input_name @ ''_ReduceMin''] reduce_min_name 0;
                 min_output = make_tensor_value_info (hd (node_output reduce_min_node)) FLOAT [];
                 reduce_max_name = name n @ ''_ReduceMax'';
                 reduce_max_node = make_node ''ReduceMax'' [input_name]
                                     [input_name @ ''_ReduceMax''] reduce_max_name 0;
                 max_output = make_tensor_value_info (hd (node_output reduce_max_node)) FLOAT []
             in augment_loop ns (added_nodes @ [reduce_min_node, reduce_max_node])
                  (added_outputs @ [min_output, max_output]))
      else augment_loop ns added_nodes added_outputs)"

text \<open>
  \<open>augment_graph(model)\<close>: \<open>model\<close> is a reference into the store \<open>h\<close>. The two
  \<open>extend\<close> calls mutate the object the reference points to, and the function returns
  the reference it was given. An exception in the loop leaves the store as it was.
\<close>

definition augment_graph :: "nat \<Rightarrow> model_proto list \<Rightarrow> (error + nat) \<times> model_proto list" where
  "augment_graph model h =
     (let g = graph (h ! model) in
      case augment_loop (node g) [] [] of
        Inl e \<Rightarrow> (Inl e, h)
      | Inr (added_nodes, added_outputs) \<Rightarrow>
          (Inr model,
           h[model := (h ! model)\<lparr>graph :=
               g\<lparr>node := node g @ added_nodes,
                 graph_output := graph_output g @ added_outputs\<rparr>\<rparr>]))"

subsection \<open>Python dictionaries\<close>

text \<open>
  A \<open>dict\<close> keeps its keys in insertion order; assigning to a key that is present
  replaces the value and keeps the key's position.
\<close>

type_synonym ('k, 'v) dict = "('k \<times> 'v) list"

text \<open>\<open>d[k] = v\<close>.\<close>

fun dict_setitem :: "('k, 'v) dict \<Rightarrow> 'k \<Rightarrow> 'v \<Rightarrow> ('k, 'v) dict" where
  "dict_setitem [] k v = [(k, v)]"
| "dict_setitem ((k', v') # d) k v =
     (if k' = k then (k, v) # d else (k', v') # dict_setitem d k v)"

text \<open>\<open>d[k]\<close>, which raises \<open>KeyError\<close> on a missing key.\<close>

definition dict_getitem :: "('k, 'v) dict \<Rightarrow> 'k \<Rightarrow> error + 'v" where
  "dict_getitem d k = (case map_of d k of None \<Rightarrow> Inl KeyError | Some v \<Rightarrow> Inr v)"

text \<open>\<open>dict(pairs)\<close>, in particular \<open>dict(zip(keys, values))\<close>.\<close>

definition dict_of :: "('k \<times> 'v) list \<Rightarrow> ('k, 'v) dict" where
  "dict_of ps = foldl (\<lambda>d (k, v). dict_setitem d k v) [] ps"

text \<open>\<open>d.setdefault(k, []).append(v)\<close>.\<close>

fun setdefault_append :: "('k, 'v list) dict \<Rightarrow> 'k \<Rightarrow> 'v \<Rightarrow> ('k, 'v list) dict" where
  "setdefault_append [] k v = [(k, [v])]"
| "setdefault_append ((k', vs) # d) k v =
     (if k' = k then (k', vs @ [v]) # d else (k', vs) # setdefault_append d k v)"

subsection \<open>\<open>get_intermediate_outputs\<close>\<close>

text \<open>
  The inference session, an external collaborator: its declared inputs and outputs
  (\<open>get_inputs()\<close>, \<open>get_outputs()\<close>, each with \<open>.name\<close> and \<open>.shape\<close>) and
  \<open>run([], {name: x})\<close>, which returns one tensor per output or raises. A tensor is
  represented by the scalar that \<open>float\<close> reads from it, which may be NaN.
\<close>

record node_arg =
  arg_name :: string    \<comment> \<open>\<open>.name\<close>\<close>
  arg_shape :: "int list"   \<comment> \<open>\<open>.shape\<close>\<close>

record 'i inference_session =
  get_inputs :: "node_arg list"
  get_outputs :: "node_arg list"
  run :: "'i \<Rightarrow> error + pyfloat list"

text \<open>\<open>onnx.load(path)\<close> on a file system that maps paths to models.\<close>

definition onnx_load :: "(string \<rightharpoonup> model_proto) \<Rightarrow> string \<Rightarrow> error + model_proto" where
  "onnx_load files path = (case files path of None \<Rightarrow> Inl FileNotFoundError | Some m \<Rightarrow> Inr m)"

text \<open>
  \<open>[session.run([], {input_name: inputs[i]}) for i in range(num_inputs)]\<close>. The second
  component is the list of inputs on which \<open>session.run\<close> has been invoked, in call order:
  the effect of the comprehension on the session.
\<close>

fun run_all :: "'i inference_session \<Rightarrow> 'i list \<Rightarrow> (error + pyfloat list list) \<times> 'i list" where
  "run_all session [] = (Inr [], [])"
| "run_all session (x # xs) =
     (case run session x of
        Inl e \<Rightarrow> (Inl e, [x])
      | Inr outs \<Rightarrow>
          (case run_all session xs of
             (Inl e, calls) \<Rightarrow> (Inl e, x # calls)
           | (Inr rest, calls) \<Rightarrow> (Inr (outs # rest), x # calls)))"

text \<open>
  The merge loop: \<open>for d in output_dicts: for k, v in d.items():
  merged_dict.setdefault(k, []).append(v)\<close>.
\<close>

definition merge_dicts :: "('k, 'v) dict list \<Rightarrow> ('k, 'v list) dict" where
  "merge_dicts output_dicts =
     foldl (\<lambda>merged_dict d. foldl (\<lambda>m (k, v). setdefault_append m k v) merged_dict d)
       [] output_dicts"

text \<open>\<open>s.rpartition('_')[0]\<close>: what precedes the last underscore, empty if there is none.\<close>

definition rpartition_head :: "string \<Rightarrow> string" where
  "rpartition_head s =
     (case dropWhile (\<lambda>c. c \<noteq> CHR ''_'') (rev s) of
        [] \<Rightarrow> []
      | _ # before \<Rightarrow> rev before)"

text \<open>\<open>[names[i].rpartition('_')[0] for i in range(0, len(names), 2)]\<close>.\<close>

fun node_names_of :: "string list \<Rightarrow> string list" where
  "node_names_of [] = []"
| "node_names_of [a] = [rpartition_head a]"
| "node_names_of (a # b # rest) = rpartition_head a # node_names_of rest"

text \<open>
  Python's \<open>min\<close> and \<open>max\<close> of a list: \<open>ValueError\<close> on the empty list, else a left
  to right scan that replaces the current best by an item when \<open>item < best\<close>
  (\<open>item > best\<close>) holds. A NaN that comes first stays, a NaN that comes later is skipped.
\<close>

definition py_min :: "pyfloat list \<Rightarrow> error + pyfloat" where
  "py_min xs = (case xs of [] \<Rightarrow> Inl ValueError
                | x # rest \<Rightarrow>
                    Inr (foldl (\<lambda>best v. if float_less v best then v else best) x rest))"

definition py_max :: "pyfloat list \<Rightarrow> error + pyfloat" where
  "py_max xs = (case xs of [] \<Rightarrow> Inl ValueError
                | x # rest \<Rightarrow>
                    Inr (foldl (\<lambda>best v. if float_less best v then v else best) x rest))"

text \<open>
  The comprehension of the \<open>naive\<close> branch, over \<open>i in range(0, len(names), 2)\<close>. For
  each \<open>i\<close> it evaluates \<open>min(clean_merged_dict[names[i]])\<close> first and
  \<open>max(clean_merged_dict[names[i+1]])\<close> second, so with an odd number of names the last
  step raises \<open>KeyError\<close> or \<open>ValueError\<close> from the first, else \<open>IndexError\<close> from
  \<open>names[i+1]\<close>.
\<close>

fun naive_pairs ::
  "(string, pyfloat list) dict \<Rightarrow> string list \<Rightarrow> error + (pyfloat \<times> pyfloat) list" where
  "naive_pairs clean_merged_dict [] = Inr []"
| "naive_pairs clean_merged_dict [a] =
     (case dict_getitem clean_merged_dict a of
        Inl e \<Rightarrow> Inl e
      | Inr mins \<Rightarrow> (case py_min mins of Inl e \<Rightarrow> Inl e | Inr _ \<Rightarrow> Inl IndexError))"
| "naive_pairs clean_merged_dict (a # b # rest) =
     (case dict_getitem clean_merged_dict a of
        Inl e \<Rightarrow> Inl e
      | Inr mins \<Rightarrow>
          (case py_min mins of
             Inl e \<Rightarrow> Inl e
           | Inr lo \<Rightarrow>
               (case dict_getitem clean_merged_dict b of
                  Inl e \<Rightarrow> Inl e
                | Inr maxs \<Rightarrow>
                    (case py_max maxs of
                       Inl e \<Rightarrow> Inl e
                     | Inr hi \<Rightarrow>
                         (case naive_pairs clean_merged_dict rest of
                            Inl e \<Rightarrow> Inl e
                          | Inr pairs \<Rightarrow> Inr ((lo, hi) # pairs))))))"

text \<open>
  Lines 78 to 97: everything after the inference calls; \<open>session_outputs\<close> are the
  names of \<open>session.get_outputs()\<close>. \<open>intermediate_outputs[0]\<close> raises when there was
  no input; \<open>session.get_outputs()[i]\<close> raises when the first result has more tensors
  than the session declares outputs.
\<close>

definition aggregate ::
  "string list \<Rightarrow> nat \<Rightarrow> pyfloat list list \<Rightarrow> string
     \<Rightarrow> error + (string, pyfloat \<times> pyfloat) dict" where
  "aggregate session_outputs num_model_outputs intermediate_outputs calib_mode =
     (case intermediate_outputs of
        [] \<Rightarrow> Inl IndexError
      | first # _ \<Rightarrow>
          if length first > length session_outputs then Inl IndexError
          else
            let node_output_names = take (length first) session_outputs;
                output_dicts = map (\<lambda>outs. dict_of (zip node_output_names outs)) intermediate_outputs;
                merged_dict = merge_dicts output_dicts;
                added_node_output_names = drop num_model_outputs node_output_names;
                node_names = node_names_of added_node_output_names;
                clean_merged_dict =
                  (case merged_dict of
                     [] \<Rightarrow> []
                   | (k0, _) # _ \<Rightarrow> filter (\<lambda>(k, _). k \<noteq> k0) merged_dict)
            in if calib_mode = ''naive'' then
                 (case naive_pairs clean_merged_dict added_node_output_names of
                    Inl e \<Rightarrow> Inl e
                  | Inr pairs \<Rightarrow> Inr (dict_of (zip node_names pairs)))
               else Inl ValueError)"

text \<open>
  \<open>get_intermediate_outputs(model_path, session, inputs, calib_mode)\<close>: the result, and
  the inputs on which \<open>session.run\<close> was invoked on the way, in call order.
\<close>

definition get_intermediate_outputs ::
  "(string \<rightharpoonup> model_proto) \<Rightarrow> string \<Rightarrow> 'i inference_session \<Rightarrow> 'i list \<Rightarrow> string
     \<Rightarrow> (error + (string, pyfloat \<times> pyfloat) dict) \<times> 'i list" where
  "get_intermediate_outputs files model_path session inputs calib_mode =
     (case onnx_load files model_path of
        Inl e \<Rightarrow> (Inl e, [])
      | Inr model \<Rightarrow>
          let num_model_outputs = length (graph_output (graph model)) in
          (case get_inputs session of
             [] \<Rightarrow> (Inl IndexError, [])
           | first_input # _ \<Rightarrow>
               let input_name = arg_name first_input in
               (case run_all session inputs of
                  (Inl e, calls) \<Rightarrow> (Inl e, calls)
                | (Inr intermediate_outputs, calls) \<Rightarrow>
                    (aggregate (map arg_name (get_outputs session)) num_model_outputs
                       intermediate_outputs calib_mode, calls))))"

subsection \<open>\<open>calculate_scale_zeropoint\<close>\<close>

text \<open>Python's \<open>round\<close> of a float: to the nearest integer, a tie to the even one.\<close>

definition py_round :: "real \<Rightarrow> int" where
  "py_round x =
     (let fl = \<lfloor>x\<rfloor>; d = x - of_int fl
      in if d < 1 / 2 then fl
         else if d > 1 / 2 then fl + 1
         else if even fl then fl else fl + 1)"

text \<open>
  The body of \<open>calculate_scale_zeropoint\<close> for finite \<open>rmin\<close> and \<open>rmax\<close>, in three
  steps. Lines 103 and 104: \<open>rmin = min(rmin, 0)\<close>, \<open>rmax = max(rmax, 0)\<close>.
\<close>

definition include_zero :: "real \<Rightarrow> real \<Rightarrow> real \<times> real" where
  "include_zero rmin rmax = (min rmin 0, max rmax 0)"

text \<open>
  Lines 109 to 118: the range after the look at \<open>next_node\<close>. \<open>attribute[0]\<close> and
  \<open>attribute[1]\<close> raise on a \<open>Clip\<close> with fewer than two attributes.
\<close>

definition adjust_range :: "node_proto \<Rightarrow> real \<times> real \<Rightarrow> error + real \<times> real" where
  "adjust_range next_node r =
     (case (if op_type next_node = ''Clip'' then
              (case attribute next_node of
                 a0 # a1 # _ \<Rightarrow>
                   let clip_min = attr_f a0; clip_max = attr_f a1;
                       rmin = (if fst r < clip_min then clip_min else fst r);
                       rmax = (if snd r > clip_max then clip_max else snd r)
                   in Inr (rmin, rmax)
               | _ \<Rightarrow> Inl IndexError)
            else Inr r) of
        Inl e \<Rightarrow> Inl e
      | Inr (rmin, rmax) \<Rightarrow>
          if op_type next_node = ''Relu'' then Inr (if rmin < 0 then 0 else rmin, rmax)
          else Inr (rmin, rmax))"

text \<open>Lines 120 to 126: scale and zero point of a range, returned as \<open>[zero_point, scale]\<close>.\<close>

definition scale_zeropoint :: "real \<times> real \<Rightarrow> 8 word \<times> real" where
  "scale_zeropoint r =
     (let rmin = fst r; rmax = snd r;
          scale = (if rmin \<noteq> rmax then (rmax - rmin) / 255 else 1);
          initial_zero_point = (0 - rmin) / scale;
          zero_point = (word_of_int (py_round (max 0 (min 255 initial_zero_point))) :: 8 word)
      in (zero_point, scale))"

definition calculate_scale_zeropoint ::
  "node_proto \<Rightarrow> node_proto \<Rightarrow> real \<Rightarrow> real \<Rightarrow> error + 8 word \<times> real" where
  "calculate_scale_zeropoint n next_node rmin rmax =
     (case adjust_range next_node (include_zero rmin rmax) of
        Inl e \<Rightarrow> Inl e
      | Inr r \<Rightarrow> Inr (scale_zeropoint r))"

text \<open>
  \<open>calculate_scale_zeropoint\<close> on the floats of a statistics entry, as the loop of
  \<open>calculate_quantization_params\<close> calls it. For finite \<open>rmin\<close> and \<open>rmax\<close> it is the
  computation above. When \<open>rmin\<close> or \<open>rmax\<close> is NaN, the attribute reads of a \<open>Clip\<close>
  successor happen as before. Every comparison with NaN is false, so \<open>min(rmin, 0)\<close>,
  \<open>max(rmax, 0)\<close> and the \<open>Clip\<close> and \<open>Relu\<close> steps leave the NaN in place;
  \<open>rmin != rmax\<close> holds, and the scale, computed from a NaN, is NaN. The initial zero
  point is NaN too, \<open>min(255, nan)\<close> is 255 (the scan of \<open>min\<close> skips a later NaN),
  and the zero point is 255.
\<close>

definition calculate_scale_zeropoint_float ::
  "node_proto \<Rightarrow> node_proto \<Rightarrow> pyfloat \<Rightarrow> pyfloat \<Rightarrow> error + 8 word \<times> pyfloat" where
  "calculate_scale_zeropoint_float n next_node rmin rmax =
     (case (rmin, rmax) of
        (Finite a, Finite b) \<Rightarrow>
          (case calculate_scale_zeropoint n next_node a b of
             Inl e \<Rightarrow> Inl e
           | Inr (zero_point, scale) \<Rightarrow> Inr (zero_point, Finite scale))
      | _ \<Rightarrow>
          if op_type next_node = ''Clip'' \<and> length (attribute next_node) < 2
          then Inl IndexError
          else Inr (255, NaN))"

subsection \<open>\<open>calculate_quantization_params\<close>\<close>

text \<open>
  The loop over \<open>enumerate(model.graph.node)\<close>: \<open>nodes\<close> is the whole list, the third
  argument what is left of it and \<open>index\<close> the position of its head. \<open>node.output[0]\<close>
  raises on a node without outputs, \<open>model.graph.node[index+1]\<close> when the node is the
  last one; both are evaluated before \<open>calculate_scale_zeropoint\<close> is entered.
\<close>

fun quantization_params_loop ::
  "node_proto list \<Rightarrow> (string, pyfloat \<times> pyfloat) dict \<Rightarrow> node_proto list \<Rightarrow> nat
     \<Rightarrow> (string, 8 word \<times> pyfloat) dict \<Rightarrow> error + (string, 8 word \<times> pyfloat) dict" where
  "quantization_params_loop nodes quantization_thresholds [] index quantization_params =
     Inr quantization_params"
| "quantization_params_loop nodes quantization_thresholds (n # rest) index quantization_params =
     (case node_output n of
        [] \<Rightarrow> Inl IndexError
      | node_output_name # _ \<Rightarrow>
          (case map_of quantization_thresholds node_output_name of
             None \<Rightarrow>
               quantization_params_loop nodes quantization_thresholds rest (index + 1)
                 quantization_params
           | Some node_thresholds \<Rightarrow>
               if index + 1 < length nodes then
                 (case calculate_scale_zeropoint_float n (nodes ! (index + 1))
                         (fst node_thresholds) (snd node_thresholds) of
                    Inl e \<Rightarrow> Inl e
                  | Inr node_params \<Rightarrow>
                      quantization_params_loop nodes quantization_thresholds rest (index + 1)
                        (dict_setitem quantization_params node_output_name node_params))
               else Inl IndexError))"

text \<open>
  \<open>calculate_quantization_params(model, nbits, quantization_thresholds)\<close>; the
  thresholds are \<open>None\<close> (the default) or a dictionary.
\<close>

definition calculate_quantization_params ::
  "model_proto \<Rightarrow> int \<Rightarrow> (string, pyfloat \<times> pyfloat) dict option
     \<Rightarrow> error + (string, 8 word \<times> pyfloat) dict" where
  "calculate_quantization_params model nbits quantization_thresholds =
     (if nbits \<noteq> 8 then Inl ValueError
      else case quantization_thresholds of
             None \<Rightarrow> Inl ValueError
           | Some thresholds \<Rightarrow>
               quantization_params_loop (node (graph model)) thresholds
                 (node (graph model)) 0 [])"

subsection \<open>\<open>main\<close>\<close>

text \<open>
  Lines 208 to 225 of \<open>main\<close>, from loading the model to the quantization parameters.
  The file system maps paths to models, \<open>onnx.load\<close> allocates a fresh object in the
  (initially empty) store and \<open>onnx.save\<close> writes the object's current value. The
  collaborators are parameters: \<open>inference_session\<close> for
  \<open>onnxruntime.InferenceSession\<close> (the session of a saved model) and \<open>inputs\<close> for
  what \<open>load_batch\<close> returned. Line 216 unpacks the shape of the session's first
  input into four variables. The variable \<open>model\<close> is the
  reference that \<open>augment_graph\<close> received, and it is dereferenced when
  \<open>calculate_quantization_params(model, ...)\<close> is called.
  The result: the parameters or the exception, the final file system, the final store,
  and the inputs on which inference ran.
\<close>

definition main_quantization_params ::
  "(model_proto \<Rightarrow> 'i inference_session) \<Rightarrow> 'i list \<Rightarrow> string \<Rightarrow> string
     \<Rightarrow> (string \<rightharpoonup> model_proto)
     \<Rightarrow> (error + (string, 8 word \<times> pyfloat) dict) \<times> (string \<rightharpoonup> model_proto)
          \<times> model_proto list \<times> 'i list" where
  "main_quantization_params inference_session inputs model_path calib_mode files =
     (let augmented_model_path = ''augmented_model.onnx'' in
      case onnx_load files model_path of
        Inl e \<Rightarrow> (Inl e, files, [], [])
      | Inr loaded \<Rightarrow>
          let h = [loaded]; model = 0 in
          (case augment_graph model h of
             (Inl e, h') \<Rightarrow> (Inl e, files, h', [])
           | (Inr augmented_model, h') \<Rightarrow>
               let files' = files(augmented_model_path \<mapsto> h' ! augmented_model);
                   session = inference_session (h' ! augmented_model)
               in (case get_inputs session of
                     [] \<Rightarrow> (Inl IndexError, files', h', [])
                   | first_input # _ \<Rightarrow>
                       if length (arg_shape first_input) \<noteq> 4
                       then (Inl ValueError, files', h', [])
                       else
                         (case get_intermediate_outputs files' model_path session inputs
                                 calib_mode of
                            (Inl e, calls) \<Rightarrow> (Inl e, files', h', calls)
                          | (Inr dict_for_quantization, calls) \<Rightarrow>
                              (calculate_quantization_params (h' ! model) 8
                                 (Some dict_for_quantization),
                               files', h', calls)))))"

text \<open>
  The whole of \<open>main\<close>: the tail hands a freshly loaded model and the parameters to the
  external \<open>quantize\<close> and saves the result at \<open>output_model_path\<close>. The result is
  the final file system, or the exception.
\<close>

definition main ::
  "(model_proto \<Rightarrow> 'i inference_session) \<Rightarrow> 'i list
     \<Rightarrow> (model_proto \<Rightarrow> (string, 8 word \<times> pyfloat) dict \<Rightarrow> model_proto)
     \<Rightarrow> string \<Rightarrow> string \<Rightarrow> string
     \<Rightarrow> (string \<rightharpoonup> model_proto) \<Rightarrow> error + (string \<rightharpoonup> model_proto)" where
  "main inference_session inputs quantize model_path output_model_path calib_mode files =
     (case main_quantization_params inference_session inputs model_path calib_mode files of
        (Inl e, _) \<Rightarrow> Inl e
      | (Inr quantization_params_dict, files', _) \<Rightarrow>
          (case onnx_load files' model_path of
             Inl e \<Rightarrow> Inl e
           | Inr reloaded \<Rightarrow>
               Inr (files'(output_model_path \<mapsto> quantize reloaded quantization_params_dict))))"

section \<open>Vocabulary of the properties\<close>

text \<open>A node that \<open>augment_graph\<close> probes.\<close>

definition eligible :: "node_proto \<Rightarrow> bool" where
  "eligible n = (op_type n \<in> set quantization_candidates)"

text \<open>
  The two probe nodes and the two output declarations of an eligible node, and the nodes
  and outputs of all probes of a node list, eligible node by eligible node.
\<close>

definition min_probe :: "node_proto \<Rightarrow> node_proto" where
  "min_probe n = make_node ''ReduceMin'' [hd (node_output n)]
                   [hd (node_output n) @ ''_ReduceMin''] (name n @ ''_ReduceMin'') 0"

definition max_probe :: "node_proto \<Rightarrow> node_proto" where
  "max_probe n = make_node ''ReduceMax'' [hd (node_output n)]
                   [hd (node_output n) @ ''_ReduceMax''] (name n @ ''_ReduceMax'') 0"

definition min_probe_output :: "node_proto \<Rightarrow> value_info_proto" where
  "min_probe_output n = make_tensor_value_info (hd (node_output n) @ ''_ReduceMin'') FLOAT []"

definition max_probe_output :: "node_proto \<Rightarrow> value_info_proto" where
  "max_probe_output n = make_tensor_value_info (hd (node_output n) @ ''_ReduceMax'') FLOAT []"

fun probe_nodes :: "node_proto list \<Rightarrow> node_proto list" where
  "probe_nodes [] = []"
| "probe_nodes (n # ns) =
     (if eligible n then min_probe n # max_probe n # probe_nodes ns else probe_nodes ns)"

fun probe_outputs :: "node_proto list \<Rightarrow> value_info_proto list" where
  "probe_outputs [] = []"
| "probe_outputs (n # ns) =
     (if eligible n then min_probe_output n # max_probe_output n # probe_outputs ns
      else probe_outputs ns)"

text \<open>The graph that \<open>augment_graph\<close> leaves behind a reference to the graph \<open>m\<close>.\<close>

definition augmented :: "model_proto \<Rightarrow> model_proto" where
  "augmented m =
     m\<lparr>graph := (graph m)\<lparr>node := node (graph m) @ probe_nodes (node (graph m)),
                           graph_output := graph_output (graph m)
                                             @ probe_outputs (node (graph m))\<rparr>\<rparr>"

text \<open>
  The parameter \<open>p\<close> stored under \<open>k\<close> was computed at position \<open>i\<close>: the node there
  has \<open>k\<close> as its first output, and \<open>p\<close> is what \<open>calculate_scale_zeropoint_float\<close> returns
  for it, the node at position \<open>i + 1\<close> and the thresholds of \<open>k\<close>.
\<close>

definition derived_from ::
  "node_proto list \<Rightarrow> (string, pyfloat \<times> pyfloat) dict \<Rightarrow> string \<Rightarrow> 8 word \<times> pyfloat \<Rightarrow> nat
     \<Rightarrow> bool" where
  "derived_from nodes thresholds k p i =
     (i + 1 < length nodes \<and>
      (case node_output (nodes ! i) of [] \<Rightarrow> False | k' # _ \<Rightarrow> k' = k) \<and>
      (case map_of thresholds k of
         None \<Rightarrow> False
       | Some t \<Rightarrow>
           calculate_scale_zeropoint_float (nodes ! i) (nodes ! (i + 1)) (fst t) (snd t) = Inr p))"

text \<open>
  The node \<open>n\<close> has \<open>k\<close> as its first output, and position \<open>i\<close> holds the last node
  of the list that has.
\<close>

definition produces :: "node_proto \<Rightarrow> string \<Rightarrow> bool" where
  "produces n k = (case node_output n of [] \<Rightarrow> False | k' # _ \<Rightarrow> k' = k)"

definition last_producer :: "node_proto list \<Rightarrow> string \<Rightarrow> nat \<Rightarrow> bool" where
  "last_producer nodes k i =
     (i < length nodes \<and> produces (nodes ! i) k
      \<and> (\<forall>n \<in> set (drop (i + 1) nodes). \<not> produces n k))"

text \<open>
  The contract of \<open>session.run\<close> on one input: it succeeds and returns one tensor per
  declared output.
\<close>

definition run_ok :: "'i inference_session \<Rightarrow> 'i \<Rightarrow> bool" where
  "run_ok session x =
     (case run session x of
        Inl _ \<Rightarrow> False
      | Inr outs \<Rightarrow> length outs = length (get_outputs session))"

text \<open>
  A run that succeeds with one finite value per declared output, the values being
  \<open>vals\<close>.
\<close>

definition finite_run :: "'i inference_session \<Rightarrow> 'i \<Rightarrow> real list \<Rightarrow> bool" where
  "finite_run session x vals =
     (run session x = Inr (map Finite vals) \<and> length vals = length (get_outputs session))"

text \<open>The value of the output called \<open>a\<close> among the values of one run (0 if there is none).\<close>

definition output_value :: "string list \<Rightarrow> real list \<Rightarrow> string \<Rightarrow> real" where
  "output_value names vals a = (case map_of (zip names vals) a of None \<Rightarrow> 0 | Some v \<Rightarrow> v)"

text \<open>
  The statistics expected of probe outputs that come in pairs: for each pair, the least
  value of the first output and the greatest value of the second, \<open>column a\<close> being the
  values of the output \<open>a\<close> over the dataset.
\<close>

fun min_max_pairs :: "(string \<Rightarrow> real set) \<Rightarrow> string list \<Rightarrow> (pyfloat \<times> pyfloat) list" where
  "min_max_pairs column [] = []"
| "min_max_pairs column [a] = []"
| "min_max_pairs column (a # b # rest) =
     (Finite (Min (column a)), Finite (Max (column b))) # min_max_pairs column rest"

text \<open>Every list of a merged dictionary is free of NaN.\<close>

definition nan_free :: "('k, pyfloat list) dict \<Rightarrow> bool" where
  "nan_free m = (\<forall>k l. map_of m k = Some l \<longrightarrow> NaN \<notin> set l)"

text \<open>The tensors of a successful run (empty for a failed one).\<close>

definition outputs_of :: "'i inference_session \<Rightarrow> 'i \<Rightarrow> pyfloat list" where
  "outputs_of session x = (case run session x of Inl _ \<Rightarrow> [] | Inr outs \<Rightarrow> outs)"

text \<open>The elements of the list stored under a key, none for a missing key.\<close>

definition values_at :: "('k, 'v list) dict \<Rightarrow> 'k \<Rightarrow> 'v set" where
  "values_at m k = (case map_of m k of None \<Rightarrow> {} | Some l \<Rightarrow> set l)"

text \<open>
  Two merged dictionaries have the same keys and, under each key, lists with the same
  elements.
\<close>

definition same_values :: "('k, 'v list) dict \<Rightarrow> ('k, 'v list) dict \<Rightarrow> bool" where
  "same_values m m' = (\<forall>k. map_option set (map_of m k) = map_option set (map_of m' k))"

text \<open>\<open>list(d.keys())[0]\<close>, if there is one.\<close>

definition first_key :: "('k, 'v) dict \<Rightarrow> 'k option" where
  "first_key d = (case d of [] \<Rightarrow> None | (k, _) # _ \<Rightarrow> Some k)"

text \<open>The \<open>clean_merged_dict\<close> of a merged dictionary: all entries but that of the first key.\<close>

definition drop_first_key :: "('k, 'v) dict \<Rightarrow> ('k, 'v) dict" where
  "drop_first_key m = (case m of [] \<Rightarrow> [] | (k0, _) # _ \<Rightarrow> filter (\<lambda>(k, _). k \<noteq> k0) m)"

subsection \<open>Example graphs\<close>

definition ex_conv :: node_proto where
  "ex_conv = \<lparr>op_type = ''Conv'', name = ''conv1'', node_input = [''x''],
               node_output = [''X''], attribute = []\<rparr>"

definition ex_relu :: node_proto where
  "ex_relu = \<lparr>op_type = ''Relu'', name = ''relu1'', node_input = [''X''],
               node_output = [''Y''], attribute = []\<rparr>"

definition ex_matmul :: node_proto where
  "ex_matmul = \<lparr>op_type = ''MatMul'', name = ''mm1'', node_input = [''Y'', ''w''],
                 node_output = [''Z''], attribute = []\<rparr>"

definition ex_model :: model_proto where
  "ex_model = \<lparr>graph = \<lparr>node = [ex_conv, ex_relu, ex_matmul],
                          graph_output = [make_tensor_value_info ''Z'' FLOAT [1, 10]]\<rparr>\<rparr>"

definition ex_relu_model :: model_proto where
  "ex_relu_model = \<lparr>graph = \<lparr>node = [ex_relu],
                          graph_output = [make_tensor_value_info ''Y'' FLOAT [1, 10]]\<rparr>\<rparr>"

text \<open>
  A \<open>Clip\<close> node with the bounds \<open>min = 0\<close> and \<open>max = 6\<close>, as
  \<open>onnx.helper.make_node('Clip', ['X'], ['Y'], 'clip1', min=0.0, max=6.0)\<close> builds it:
  \<open>make_node\<close> adds the attributes sorted by name, \<open>max\<close> before \<open>min\<close>. The second
  node has the same bounds with \<open>min\<close> stored first.
\<close>

definition ex_clip :: node_proto where
  "ex_clip = \<lparr>op_type = ''Clip'', name = ''clip1'', node_input = [''X''],
               node_output = [''Y''],
               attribute = [\<lparr>attr_name = ''max'', attr_f = 6, attr_i = 0\<rparr>,
                            \<lparr>attr_name = ''min'', attr_f = 0, attr_i = 0\<rparr>]\<rparr>"

definition ex_clip_min_first :: node_proto where
  "ex_clip_min_first = \<lparr>op_type = ''Clip'', name = ''clip1'', node_input = [''X''],
               node_output = [''Y''],
               attribute = [\<lparr>attr_name = ''min'', attr_f = 0, attr_i = 0\<rparr>,
                            \<lparr>attr_name = ''max'', attr_f = 6, attr_i = 0\<rparr>]\<rparr>"

definition ex_clip_model :: model_proto where
  "ex_clip_model = \<lparr>graph = \<lparr>node = [ex_conv, ex_clip],
                               graph_output = [make_tensor_value_info ''Y'' FLOAT [1, 10]]\<rparr>\<rparr>"

text \<open>A graph of one convolution, whose output is the graph output.\<close>

definition ex_conv_model :: model_proto where
  "ex_conv_model = \<lparr>graph = \<lparr>node = [ex_conv],
                               graph_output = [make_tensor_value_info ''X'' FLOAT [1, 10]]\<rparr>\<rparr>"

text \<open>
  A session for a model with three outputs: it declares the outputs of the model and maps
  the input \<open>x\<close> to the tensors \<open>x\<close>, \<open>x + 1\<close> and \<open>x + 3\<close>.
\<close>

definition ex_inference_session :: "model_proto \<Rightarrow> real inference_session" where
  "ex_inference_session m =
     \<lparr>get_inputs = [\<lparr>arg_name = ''x'', arg_shape = [1, 3, 2, 2]\<rparr>],
      get_outputs = map (\<lambda>v. \<lparr>arg_name = value_name v, arg_shape = shape v\<rparr>)
                      (graph_output (graph m)),
      run = (\<lambda>x. Inr [Finite x, Finite (x + 1), Finite (x + 3)])\<rparr>"

text \<open>The session of the augmented one-convolution graph, and a file system holding the original.\<close>

definition ex_session :: "real inference_session" where
  "ex_session = ex_inference_session (snd (augment_graph 0 [ex_conv_model]) ! 0)"

definition ex_files :: "string \<rightharpoonup> model_proto" where
  "ex_files = [''model.onnx'' \<mapsto> ex_conv_model]"

text \<open>
  A session for a model with five outputs, and a file system holding the graph of a
  convolution, a \<open>Relu\<close> and a matrix product.
\<close>

definition ex_model_inference_session :: "model_proto \<Rightarrow> real inference_session" where
  "ex_model_inference_session m =
     \<lparr>get_inputs = [\<lparr>arg_name = ''x'', arg_shape = [1, 3, 2, 2]\<rparr>],
      get_outputs = map (\<lambda>v. \<lparr>arg_name = value_name v, arg_shape = shape v\<rparr>)
                      (graph_output (graph m)),
      run = (\<lambda>x. Inr [Finite x, Finite (x - 1), Finite (x + 3), Finite (x - 3),
                       Finite (x + 7)])\<rparr>"

definition ex_model_files :: "string \<rightharpoonup> model_proto" where
  "ex_model_files = [''model.onnx'' \<mapsto> ex_model]"

text \<open>
  A session with the same declarations whose min-probe output is NaN on the input 0 and
  \<open>x + 1\<close> on any other input \<open>x\<close>.
\<close>

definition ex_nan_session :: "real inference_session" where
  "ex_nan_session =
     \<lparr>get_inputs = [\<lparr>arg_name = ''x'', arg_shape = [1, 3, 2, 2]\<rparr>],
      get_outputs = [\<lparr>arg_name = ''X'', arg_shape = [1, 10]\<rparr>,
                     \<lparr>arg_name = ''X_ReduceMin'', arg_shape = []\<rparr>,
                     \<lparr>arg_name = ''X_ReduceMax'', arg_shape = []\<rparr>],
      run = (\<lambda>x. Inr [Finite x, if x = 0 then NaN else Finite (x + 1), Finite (x + 3)])\<rparr>"

text \<open>The one-convolution graph after augmentation.\<close>

definition ex_augmented_model :: model_proto where
  "ex_augmented_model =
     \<lparr>graph = \<lparr>node = [ex_conv, min_probe ex_conv, max_probe ex_conv],
               graph_output = [make_tensor_value_info ''X'' FLOAT [1, 10],
                               min_probe_output ex_conv, max_probe_output ex_conv]\<rparr>\<rparr>"


section \<open>Graph augmentation\<close>

lemma augment_loop_ok:
  "\<forall>n \<in> set ns. eligible n \<longrightarrow> node_output n \<noteq> [] \<Longrightarrow>
   augment_loop ns an ao = Inr (an @ probe_nodes ns, ao @ probe_outputs ns)"
proof (induction ns arbitrary: an ao)
  case Nil
  show ?case by simp
next
  case (Cons n ns)
  show ?case
  proof (cases "eligible n")
    case True
    with Cons.prems obtain x xs where out: "node_output n = x # xs"
      by (cases "node_output n") auto
    from Cons.prems have rest: "\<forall>m \<in> set ns. eligible m \<longrightarrow> node_output m \<noteq> []"
      by simp
    show ?thesis
      using True out Cons.IH [OF rest]
      by (simp add: eligible_def Let_def make_node_def min_probe_def max_probe_def
            min_probe_output_def max_probe_output_def)
  next
    case False
    from Cons.prems have rest: "\<forall>m \<in> set ns. eligible m \<longrightarrow> node_output m \<noteq> []"
      by simp
    show ?thesis using False Cons.IH [OF rest] by (simp add: eligible_def)
  qed
qed

lemma augment_loop_fails:
  "\<exists>n \<in> set ns. eligible n \<and> node_output n = [] \<Longrightarrow> augment_loop ns an ao = Inl IndexError"
proof (induction ns arbitrary: an ao)
  case Nil
  then show ?case by simp
next
  case (Cons n ns)
  show ?case
  proof (cases "eligible n \<and> node_output n = []")
    case True
    then show ?thesis by (simp add: eligible_def)
  next
    case False
    with Cons.prems have "\<exists>m \<in> set ns. eligible m \<and> node_output m = []" by auto
    from Cons.IH [OF this] show ?thesis
      by (auto simp: eligible_def Let_def split: list.splits)
  qed
qed

lemma length_probe_outputs: "length (probe_outputs ns) = 2 * length (filter eligible ns)"
  by (induction ns) auto

lemma probe_outputs_concat:
  "probe_outputs ns = concat (map (\<lambda>n. [min_probe_output n, max_probe_output n]) (filter eligible ns))"
  by (induction ns) auto

lemma probe_nodes_none: "filter eligible ns = [] \<Longrightarrow> probe_nodes ns = []"
  by (induction ns) (auto split: if_splits)

lemma probe_outputs_none: "filter eligible ns = [] \<Longrightarrow> probe_outputs ns = []"
  by (induction ns) (auto split: if_splits)

lemma augment_graph_result:
  assumes "\<forall>n \<in> set (node (graph (h ! model))). eligible n \<longrightarrow> node_output n \<noteq> []"
  shows "augment_graph model h =
           (Inr model,
            h[model := (h ! model)\<lparr>graph := (graph (h ! model))
               \<lparr>node := node (graph (h ! model)) @ probe_nodes (node (graph (h ! model))),
                graph_output := graph_output (graph (h ! model))
                                  @ probe_outputs (node (graph (h ! model)))\<rparr>\<rparr>])"
  using augment_loop_ok [OF assms, of "[]" "[]"]
  by (simp add: augment_graph_def Let_def)

text \<open>
  Claim C2. When every eligible node has an output to probe, \<open>augment_graph\<close>
  succeeds, and the outputs of the graph afterwards are the original outputs followed,
  for each eligible (Conv or MatMul) node in node-list order, by its min-probe output and
  then its max-probe output; so their number is the original number plus twice the number
  of eligible nodes.
\<close>

theorem augment_graph_appends_probe_pairs:
  assumes "model < length h"
    and "\<forall>n \<in> set (node (graph (h ! model))). eligible n \<longrightarrow> node_output n \<noteq> []"
  shows "fst (augment_graph model h) = Inr model
       \<and> graph_output (graph (snd (augment_graph model h) ! model))
           = graph_output (graph (h ! model))
             @ concat (map (\<lambda>n. [min_probe_output n, max_probe_output n])
                         (filter eligible (node (graph (h ! model)))))
       \<and> length (graph_output (graph (snd (augment_graph model h) ! model)))
           = length (graph_output (graph (h ! model)))
             + 2 * length (filter eligible (node (graph (h ! model))))"
  using assms(1)
  by (simp add: augment_graph_result [OF assms(2)] probe_outputs_concat [symmetric]
        length_probe_outputs)

theorem augment_graph_appends_probe_pairs_witness:
  "fst (augment_graph 0 [ex_model]) = Inr 0
   \<and> map value_name (graph_output (graph (snd (augment_graph 0 [ex_model]) ! 0)))
       = [''Z'', ''X_ReduceMin'', ''X_ReduceMax'', ''Z_ReduceMin'', ''Z_ReduceMax'']
   \<and> length (graph_output (graph (snd (augment_graph 0 [ex_model]) ! 0))) = 1 + 2 * 2"
proof -
  have live: "(0::nat) < length [ex_model]" by simp
  have outs: "\<forall>n \<in> set (node (graph ([ex_model] ! 0))). eligible n \<longrightarrow> node_output n \<noteq> []"
    by (simp add: ex_model_def ex_conv_def ex_relu_def ex_matmul_def)
  show ?thesis
    using augment_graph_appends_probe_pairs [OF live outs]
    by (simp add: ex_model_def ex_conv_def ex_relu_def ex_matmul_def eligible_def
          quantization_candidates_def min_probe_output_def max_probe_output_def
          make_tensor_value_info_def)
qed

text \<open>
  Claim C8, as stated, fails: \<open>augment_graph\<close> returns the reference it was given,
  allocates nothing, and the object behind the reference is no longer the original graph.
\<close>

theorem augment_graph_new_value_counterexample:
  "fst (augment_graph 0 [ex_model]) = Inr 0
   \<and> snd (augment_graph 0 [ex_model]) ! 0 \<noteq> [ex_model] ! 0
   \<and> length (snd (augment_graph 0 [ex_model])) = length [ex_model]"
  by (simp add: augment_graph_def ex_model_def ex_conv_def ex_relu_def ex_matmul_def
        quantization_candidates_def Let_def make_node_def make_tensor_value_info_def)

lemma augment_graph_success:
  assumes "augment_graph model h = (Inr r, h')"
  shows "r = model
       \<and> h' = h[model := (h ! model)\<lparr>graph := (graph (h ! model))
               \<lparr>node := node (graph (h ! model)) @ probe_nodes (node (graph (h ! model))),
                graph_output := graph_output (graph (h ! model))
                                  @ probe_outputs (node (graph (h ! model)))\<rparr>\<rparr>]"
proof -
  let ?ns = "node (graph (h ! model))"
  have ok: "\<forall>n \<in> set ?ns. eligible n \<longrightarrow> node_output n \<noteq> []"
  proof (rule ccontr)
    assume "\<not> ?thesis"
    then have "\<exists>n \<in> set ?ns. eligible n \<and> node_output n = []" by simp
    from augment_loop_fails [OF this, of "[]" "[]"] assms show False
      by (simp add: augment_graph_def Let_def)
  qed
  from augment_graph_result [OF ok] assms show ?thesis by simp
qed

lemma augment_graph_result_of:
  assumes "model < length h" and "augment_graph model h = (Inr r, h')"
  shows "r = model" and "length h' = length h"
    and "node (graph (h' ! model))
           = node (graph (h ! model)) @ probe_nodes (node (graph (h ! model)))"
  using augment_graph_success [OF assms(2)] assms(1) by simp_all

text \<open>
  Claim C8, amended. A successful \<open>augment_graph\<close> returns the reference it received
  and changes only the object behind it, by appending: the node list becomes the original
  node list followed by the probe nodes, the outputs the original outputs followed by the
  probe outputs, so the nodes and outputs that were there keep their order and names. With
  no eligible node the store is unchanged.
\<close>

theorem augment_graph_in_place:
  assumes "model < length h" and "augment_graph model h = (Inr r, h')"
  shows "r = model \<and> length h' = length h
       \<and> (\<forall>j < length h. j \<noteq> model \<longrightarrow> h' ! j = h ! j)
       \<and> node (graph (h' ! model))
           = node (graph (h ! model)) @ probe_nodes (node (graph (h ! model)))
       \<and> graph_output (graph (h' ! model))
           = graph_output (graph (h ! model)) @ probe_outputs (node (graph (h ! model)))
       \<and> (filter eligible (node (graph (h ! model))) = [] \<longrightarrow> h' = h)"
proof -
  let ?ns = "node (graph (h ! model))"
  from augment_graph_success [OF assms(2)]
  have r: "r = model"
    and h': "h' = h[model := (h ! model)\<lparr>graph := (graph (h ! model))
               \<lparr>node := ?ns @ probe_nodes ?ns,
                graph_output := graph_output (graph (h ! model)) @ probe_outputs ?ns\<rparr>\<rparr>]"
    by simp_all
  have none: "h' = h" if "filter eligible ?ns = []"
    using that h' by (simp add: probe_nodes_none probe_outputs_none)
  from r h' assms(1) none show ?thesis by simp
qed

theorem augment_graph_in_place_witness:
  "fst (augment_graph 1 [ex_relu_model, ex_model]) = Inr 1
   \<and> length (snd (augment_graph 1 [ex_relu_model, ex_model])) = 2
   \<and> snd (augment_graph 1 [ex_relu_model, ex_model]) ! 0 = ex_relu_model
   \<and> map name (node (graph (snd (augment_graph 1 [ex_relu_model, ex_model]) ! 1)))
       = [''conv1'', ''relu1'', ''mm1'',
          ''conv1_ReduceMin'', ''conv1_ReduceMax'', ''mm1_ReduceMin'', ''mm1_ReduceMax'']
   \<and> map value_name (graph_output (graph (snd (augment_graph 1 [ex_relu_model, ex_model]) ! 1)))
       = [''Z'', ''X_ReduceMin'', ''X_ReduceMax'', ''Z_ReduceMin'', ''Z_ReduceMax'']"
proof -
  let ?h = "[ex_relu_model, ex_model]"
  have live: "(1::nat) < length ?h" by simp
  have "fst (augment_graph 1 ?h) = Inr 1"
    by (simp add: augment_graph_def ex_model_def ex_conv_def ex_relu_def ex_matmul_def
          quantization_candidates_def Let_def)
  then have run: "augment_graph 1 ?h = (Inr 1, snd (augment_graph 1 ?h))"
    by (simp add: prod_eq_iff)
  have nodes: "map name (node (graph (?h ! 1)) @ probe_nodes (node (graph (?h ! 1))))
      = [''conv1'', ''relu1'', ''mm1'',
         ''conv1_ReduceMin'', ''conv1_ReduceMax'', ''mm1_ReduceMin'', ''mm1_ReduceMax'']"
    by (simp add: ex_model_def ex_conv_def ex_relu_def ex_matmul_def eligible_def
          quantization_candidates_def min_probe_def max_probe_def make_node_def)
  have outs: "map value_name (graph_output (graph (?h ! 1)) @ probe_outputs (node (graph (?h ! 1))))
      = [''Z'', ''X_ReduceMin'', ''X_ReduceMax'', ''Z_ReduceMin'', ''Z_ReduceMax'']"
    by (simp add: ex_model_def ex_conv_def ex_relu_def ex_matmul_def eligible_def
          quantization_candidates_def min_probe_output_def max_probe_output_def
          make_tensor_value_info_def)
  from augment_graph_in_place [OF live run]
  have "length (snd (augment_graph 1 ?h)) = 2"
    and "snd (augment_graph 1 ?h) ! 0 = ex_relu_model"
    and "node (graph (snd (augment_graph 1 ?h) ! 1))
           = node (graph (?h ! 1)) @ probe_nodes (node (graph (?h ! 1)))"
    and "graph_output (graph (snd (augment_graph 1 ?h) ! 1))
           = graph_output (graph (?h ! 1)) @ probe_outputs (node (graph (?h ! 1)))"
    by simp_all
  with \<open>fst (augment_graph 1 ?h) = Inr 1\<close> nodes outs show ?thesis by simp
qed

lemma augment_graph_augmented:
  assumes "\<forall>n \<in> set (node (graph m)). eligible n \<longrightarrow> node_output n \<noteq> []"
  shows "augment_graph 0 [m] = (Inr 0, [augmented m])"
  using augment_graph_result [of "[m]" 0] assms by (simp add: augmented_def)


section \<open>Collecting the statistics\<close>

lemma run_all_ok:
  "\<forall>x \<in> set inputs. run_ok session x \<Longrightarrow>
   run_all session inputs = (Inr (map (outputs_of session) inputs), inputs)"
  by (induction inputs) (auto simp: run_ok_def outputs_of_def split: sum.splits)

lemma finite_run_ok: "finite_run session x vals \<Longrightarrow> run_ok session x"
  by (simp add: finite_run_def run_ok_def)

lemma finite_run_outputs: "finite_run session x vals \<Longrightarrow> outputs_of session x = map Finite vals"
  by (simp add: finite_run_def outputs_of_def)

lemma nan_free_list: "NaN \<notin> set xs \<Longrightarrow> \<exists>rs. xs = map Finite rs"
proof (induction xs)
  case Nil
  show ?case by simp
next
  case (Cons x xs)
  then obtain rs where "xs = map Finite rs" by auto
  moreover from Cons.prems obtain r where "x = Finite r" by (cases x) auto
  ultimately have "x # xs = map Finite (r # rs)" by simp
  then show ?case by (rule exI)
qed

lemma scan_min_finite:
  "foldl (\<lambda>best v. if float_less v best then v else best) (Finite x) (map Finite rest)
     = Finite (fold min rest x)"
proof (induction rest arbitrary: x)
  case Nil
  show ?case by simp
next
  case (Cons r rest)
  have "(if r < x then r else x) = min r x" by (simp add: min_def)
  then show ?case by (simp add: Cons.IH)
qed

lemma scan_max_finite:
  "foldl (\<lambda>best v. if float_less best v then v else best) (Finite x) (map Finite rest)
     = Finite (fold max rest x)"
proof (induction rest arbitrary: x)
  case Nil
  show ?case by simp
next
  case (Cons r rest)
  have "(if x < r then r else x) = max r x" by (simp add: max_def)
  then show ?case by (simp add: Cons.IH)
qed

lemma py_min_finite:
  "py_min (map Finite rs) = (if rs = [] then Inl ValueError else Inr (Finite (Min (set rs))))"
proof (cases rs)
  case Nil
  then show ?thesis by (simp add: py_min_def)
next
  case (Cons x rest)
  with Min.set_eq_fold [of x rest] show ?thesis
    by (simp add: py_min_def scan_min_finite)
qed

lemma py_max_finite:
  "py_max (map Finite rs) = (if rs = [] then Inl ValueError else Inr (Finite (Max (set rs))))"
proof (cases rs)
  case Nil
  then show ?thesis by (simp add: py_max_def)
next
  case (Cons x rest)
  with Max.set_eq_fold [of x rest] show ?thesis
    by (simp add: py_max_def scan_max_finite)
qed

lemma finite_lists_same_set:
  assumes "NaN \<notin> set xs" and "set xs = set ys"
  obtains rs rs' where "xs = map Finite rs" and "ys = map Finite rs'" and "set rs = set rs'"
proof -
  from assms have "NaN \<notin> set ys" by simp
  with assms(1) obtain rs rs' where xs: "xs = map Finite rs" and ys: "ys = map Finite rs'"
    using nan_free_list by blast
  from assms(2) have "Finite ` set rs = Finite ` set rs'" by (simp add: xs ys)
  then have "set rs = set rs'" by (simp add: inj_image_eq_iff inj_on_def)
  with xs ys that show ?thesis by blast
qed

lemma py_min_cong: "NaN \<notin> set xs \<Longrightarrow> set xs = set ys \<Longrightarrow> py_min xs = py_min ys"
  by (erule (1) finite_lists_same_set) (auto simp: py_min_finite)

lemma py_max_cong: "NaN \<notin> set xs \<Longrightarrow> set xs = set ys \<Longrightarrow> py_max xs = py_max ys"
  by (erule (1) finite_lists_same_set) (auto simp: py_max_finite)

lemma same_values_getitem:
  assumes "same_values c c'"
  shows "(case dict_getitem c a of Inl e \<Rightarrow> Inl e | Inr l \<Rightarrow> Inr (set l))
       = (case dict_getitem c' a of Inl e \<Rightarrow> Inl e | Inr l \<Rightarrow> Inr (set l))"
proof -
  from assms have "map_option set (map_of c a) = map_option set (map_of c' a)"
    by (simp add: same_values_def)
  then show ?thesis
    by (cases "map_of c a"; cases "map_of c' a") (simp_all add: dict_getitem_def)
qed

lemma nan_free_getitem: "nan_free c \<Longrightarrow> dict_getitem c a = Inr l \<Longrightarrow> NaN \<notin> set l"
  by (auto simp: nan_free_def dict_getitem_def split: option.splits)

lemma same_values_min:
  assumes "same_values c c'" and "nan_free c"
  shows "(case dict_getitem c a of Inl e \<Rightarrow> Inl e | Inr l \<Rightarrow> py_min l)
       = (case dict_getitem c' a of Inl e \<Rightarrow> Inl e | Inr l \<Rightarrow> py_min l)"
  using same_values_getitem [OF assms(1), of a] nan_free_getitem [OF assms(2), of a]
  by (auto split: sum.splits intro: py_min_cong)

lemma same_values_max:
  assumes "same_values c c'" and "nan_free c"
  shows "(case dict_getitem c a of Inl e \<Rightarrow> Inl e | Inr l \<Rightarrow> py_max l)
       = (case dict_getitem c' a of Inl e \<Rightarrow> Inl e | Inr l \<Rightarrow> py_max l)"
  using same_values_getitem [OF assms(1), of a] nan_free_getitem [OF assms(2), of a]
  by (auto split: sum.splits intro: py_max_cong)

lemma naive_pairs_single:
  "naive_pairs c [a]
     = (case (case dict_getitem c a of Inl e \<Rightarrow> Inl e | Inr l \<Rightarrow> py_min l) of
          Inl e \<Rightarrow> Inl e
        | Inr _ \<Rightarrow> Inl IndexError)"
  by (simp split: sum.splits)

lemma naive_pairs_step:
  "naive_pairs c (a # b # rest)
     = (case (case dict_getitem c a of Inl e \<Rightarrow> Inl e | Inr l \<Rightarrow> py_min l) of
          Inl e \<Rightarrow> Inl e
        | Inr lo \<Rightarrow>
            (case (case dict_getitem c b of Inl e \<Rightarrow> Inl e | Inr l \<Rightarrow> py_max l) of
               Inl e \<Rightarrow> Inl e
             | Inr hi \<Rightarrow>
                 (case naive_pairs c rest of
                    Inl e \<Rightarrow> Inl e
                  | Inr pairs \<Rightarrow> Inr ((lo, hi) # pairs))))"
  by (simp split: sum.splits)

lemma naive_pairs_cong:
  assumes "same_values c c'" and "nan_free c"
  shows "naive_pairs c names = naive_pairs c' names"
proof (induction names rule: induct_list012)
  case 1
  show ?case by simp
next
  case (2 a)
  show ?case
    unfolding naive_pairs_single same_values_min [OF assms] ..
next
  case (3 a b rest)
  show ?case
    unfolding naive_pairs_step same_values_min [OF assms] same_values_max [OF assms] "3.IH"(1) ..
qed

lemma same_values_iff:
  "same_values m m' \<longleftrightarrow>
     (\<forall>k. (map_of m k = None \<longleftrightarrow> map_of m' k = None) \<and> values_at m k = values_at m' k)"
  unfolding same_values_def values_at_def
proof (intro iffI allI)
  fix k
  assume "\<forall>k. map_option set (map_of m k) = map_option set (map_of m' k)"
  then have "map_option set (map_of m k) = map_option set (map_of m' k)" ..
  then show "(map_of m k = None \<longleftrightarrow> map_of m' k = None)
      \<and> (case map_of m k of None \<Rightarrow> {} | Some l \<Rightarrow> set l)
        = (case map_of m' k of None \<Rightarrow> {} | Some l \<Rightarrow> set l)"
    by (cases "map_of m k"; cases "map_of m' k") simp_all
next
  fix k
  assume "\<forall>k. (map_of m k = None \<longleftrightarrow> map_of m' k = None)
      \<and> (case map_of m k of None \<Rightarrow> {} | Some l \<Rightarrow> set l)
        = (case map_of m' k of None \<Rightarrow> {} | Some l \<Rightarrow> set l)"
  then have "(map_of m k = None \<longleftrightarrow> map_of m' k = None)
      \<and> (case map_of m k of None \<Rightarrow> {} | Some l \<Rightarrow> set l)
        = (case map_of m' k of None \<Rightarrow> {} | Some l \<Rightarrow> set l)" ..
  then show "map_option set (map_of m k) = map_option set (map_of m' k)"
    by (cases "map_of m k"; cases "map_of m' k") simp_all
qed

lemma map_of_setdefault_append:
  "map_of (setdefault_append m k v) k'
     = (if k' = k then Some ((case map_of m k of None \<Rightarrow> [] | Some l \<Rightarrow> l) @ [v])
        else map_of m k')"
  by (induction m k v rule: setdefault_append.induct) auto

lemma items_None:
  "map_of (foldl (\<lambda>m (k, v). setdefault_append m k v) m d) k = None
     \<longleftrightarrow> map_of m k = None \<and> k \<notin> fst ` set d"
proof (induction d arbitrary: m)
  case Nil
  show ?case by simp
next
  case (Cons kv d)
  obtain k' v where kv: "kv = (k', v)" by (cases kv)
  show ?case
    by (auto simp: kv Cons.IH map_of_setdefault_append)
qed

lemma items_values:
  "values_at (foldl (\<lambda>m (k, v). setdefault_append m k v) m d) k
     = values_at m k \<union> {v. (k, v) \<in> set d}"
proof (induction d arbitrary: m)
  case Nil
  show ?case by simp
next
  case (Cons kv d)
  obtain k' v where kv: "kv = (k', v)" by (cases kv)
  have step: "values_at (setdefault_append m k' v) k
                = values_at m k \<union> (if k = k' then {v} else {})"
    by (auto simp: values_at_def map_of_setdefault_append split: option.splits)
  show ?case
    by (auto simp: kv Cons.IH step split: if_splits)
qed

lemma merge_None:
  "map_of (foldl (\<lambda>merged d. foldl (\<lambda>m (k, v). setdefault_append m k v) merged d) m ds) k = None
     \<longleftrightarrow> map_of m k = None \<and> (\<forall>d \<in> set ds. k \<notin> fst ` set d)"
  by (induction ds arbitrary: m) (auto simp: items_None)

lemma merge_values:
  "values_at (foldl (\<lambda>merged d. foldl (\<lambda>m (k, v). setdefault_append m k v) merged d) m ds) k
     = values_at m k \<union> {v. \<exists>d \<in> set ds. (k, v) \<in> set d}"
  by (induction ds arbitrary: m) (auto simp: items_values)

lemma merge_dicts_same_values:
  assumes "set ds = set ds'"
  shows "same_values (merge_dicts ds) (merge_dicts ds')"
  unfolding same_values_iff merge_dicts_def merge_None merge_values
  using assms by simp

lemma first_key_setdefault_append:
  "first_key (setdefault_append m k v) = (case first_key m of None \<Rightarrow> Some k | Some k0 \<Rightarrow> Some k0)"
  by (cases m) (auto simp: first_key_def)

lemma first_key_items:
  "first_key (foldl (\<lambda>m (k, v). setdefault_append m k v) m d)
     = (case first_key m of None \<Rightarrow> first_key d | Some k0 \<Rightarrow> Some k0)"
proof (induction d arbitrary: m)
  case Nil
  show ?case by (simp add: first_key_def split: option.splits)
next
  case (Cons kv d)
  obtain k' v where kv: "kv = (k', v)" by (cases kv)
  show ?case
    by (simp add: kv Cons.IH first_key_setdefault_append split: option.splits)
       (simp add: first_key_def)
qed

lemma first_key_merge:
  assumes "\<forall>d \<in> set ds. first_key d = fk"
  shows "first_key (foldl (\<lambda>merged d. foldl (\<lambda>m (k, v). setdefault_append m k v) merged d) m ds)
           = (case first_key m of None \<Rightarrow> (if ds = [] then None else fk) | Some k0 \<Rightarrow> Some k0)"
  using assms
proof (induction ds arbitrary: m)
  case Nil
  show ?case by (simp split: option.splits)
next
  case (Cons d ds)
  then have d: "first_key d = fk" and rest: "\<forall>d \<in> set ds. first_key d = fk" by simp_all
  show ?case
    by (cases fk) (auto simp: Cons.IH [OF rest] first_key_items d split: option.splits)
qed

lemma first_key_merge_dicts:
  assumes "\<forall>d \<in> set ds. first_key d = fk" and "ds \<noteq> []"
  shows "first_key (merge_dicts ds) = fk"
  using first_key_merge [OF assms(1), of "[]"] assms(2)
  by (simp add: merge_dicts_def first_key_def)

lemma first_key_dict_setitem:
  "first_key (dict_setitem d k v) = (case first_key d of None \<Rightarrow> Some k | Some k0 \<Rightarrow> Some k0)"
  by (cases d) (auto simp: first_key_def)

lemma first_key_setitems:
  "first_key (foldl (\<lambda>d (k, v). dict_setitem d k v) d ps)
     = (case first_key d of None \<Rightarrow> first_key ps | Some k0 \<Rightarrow> Some k0)"
proof (induction ps arbitrary: d)
  case Nil
  show ?case by (simp add: first_key_def split: option.splits)
next
  case (Cons kv ps)
  obtain k' v where kv: "kv = (k', v)" by (cases kv)
  show ?case
    by (simp add: kv Cons.IH first_key_dict_setitem split: option.splits)
       (simp add: first_key_def)
qed

lemma first_key_dict_of_zip:
  assumes "length outs = length names"
  shows "first_key (dict_of (zip names outs)) = (case names of [] \<Rightarrow> None | k # _ \<Rightarrow> Some k)"
proof -
  have "first_key (dict_of (zip names outs)) = first_key (zip names outs)"
    by (simp add: dict_of_def first_key_setitems) (simp add: first_key_def)
  also have "\<dots> = (case names of [] \<Rightarrow> None | k # _ \<Rightarrow> Some k)"
    using assms by (cases names; cases outs) (simp_all add: first_key_def)
  finally show ?thesis .
qed

lemma map_of_drop_key: "map_of (filter (\<lambda>(k, _). k \<noteq> k0) m) k = (if k = k0 then None else map_of m k)"
  by (induction m) auto

lemma map_of_drop_first_key:
  "map_of (drop_first_key m) k
     = (case first_key m of None \<Rightarrow> None | Some k0 \<Rightarrow> if k = k0 then None else map_of m k)"
proof (cases m)
  case Nil
  then show ?thesis by (simp add: first_key_def drop_first_key_def)
next
  case (Cons kv rest)
  obtain k0 v where kv: "kv = (k0, v)" by (cases kv)
  have "map_of (filter (\<lambda>(k, _). k \<noteq> k0) m) k = (if k = k0 then None else map_of m k)"
    by (rule map_of_drop_key)
  with Cons kv show ?thesis by (simp add: first_key_def drop_first_key_def)
qed

lemma drop_first_key_same_values:
  assumes "same_values m m'" and "first_key m = first_key m'"
  shows "same_values (drop_first_key m) (drop_first_key m')"
  using assms
  by (auto simp: same_values_def map_of_drop_first_key split: option.splits)

lemma aggregate_unfold:
  assumes "outs \<noteq> []" and "length (hd outs) = length names"
  shows "aggregate names num_model_outputs outs calib_mode =
      (if calib_mode = ''naive'' then
         (case naive_pairs
                 (drop_first_key (merge_dicts (map (\<lambda>out. dict_of (zip names out)) outs)))
                 (drop num_model_outputs names) of
            Inl e \<Rightarrow> Inl e
          | Inr pairs \<Rightarrow> Inr (dict_of (zip (node_names_of (drop num_model_outputs names)) pairs)))
       else Inl ValueError)"
proof -
  from assms(1) obtain x xs where outs: "outs = x # xs" by (cases outs) auto
  with assms(2) have len: "length x = length names" by simp
  show ?thesis
    using len
    by (simp add: outs aggregate_def drop_first_key_def Let_def cong: list.case_cong)
qed

lemma set_dict_setitem: "set (dict_setitem d k v) \<subseteq> insert (k, v) (set d)"
  by (induction d k v rule: dict_setitem.induct) auto

lemma set_setitems: "set (foldl (\<lambda>d (k, v). dict_setitem d k v) d ps) \<subseteq> set d \<union> set ps"
proof (induction ps arbitrary: d)
  case Nil
  show ?case by simp
next
  case (Cons kv ps)
  obtain k v where kv: "kv = (k, v)" by (cases kv)
  from Cons.IH [of "dict_setitem d k v"] set_dict_setitem [of d k v]
  show ?case by (auto simp: kv)
qed

lemma set_dict_of: "set (dict_of ps) \<subseteq> set ps"
  using set_setitems [of "[]" ps] by (simp add: dict_of_def)

lemma dict_setitem_fresh: "k \<notin> fst ` set d \<Longrightarrow> dict_setitem d k v = d @ [(k, v)]"
  by (induction d k v rule: dict_setitem.induct) auto

lemma setitems_distinct:
  "distinct (map fst (d @ ps)) \<Longrightarrow> foldl (\<lambda>d (k, v). dict_setitem d k v) d ps = d @ ps"
proof (induction ps arbitrary: d)
  case Nil
  show ?case by simp
next
  case (Cons kv ps)
  obtain k v where kv: "kv = (k, v)" by (cases kv)
  from Cons.prems have fresh: "k \<notin> fst ` set d" and rest: "distinct (map fst ((d @ [(k, v)]) @ ps))"
    by (auto simp: kv)
  show ?case
    using Cons.IH [OF rest] by (simp add: kv dict_setitem_fresh [OF fresh])
qed

lemma dict_of_distinct: "distinct (map fst ps) \<Longrightarrow> dict_of ps = ps"
  using setitems_distinct [of "[]" ps] by (simp add: dict_of_def)

lemma dict_of_zip_distinct:
  "distinct names \<Longrightarrow> length out = length names \<Longrightarrow> dict_of (zip names out) = zip names out"
  by (rule dict_of_distinct) simp

lemma map_of_zip_Finite:
  "map_of (zip names (map Finite row)) a = map_option Finite (map_of (zip names row) a)"
  by (induction names row rule: list_induct2') auto

lemma output_value_member:
  assumes "a \<in> set names" and "length row = length names"
  shows "map_of (zip names row) a = Some (output_value names row a)"
proof -
  from assms have "a \<in> dom (map_of (zip names row))" by simp
  then show ?thesis by (auto simp: output_value_def)
qed

lemma entry_of_run:
  assumes "distinct names" and "a \<in> set names" and "length row = length names"
  shows "(a, v) \<in> set (dict_of (zip names (map Finite row)))
           \<longleftrightarrow> v = Finite (output_value names row a)"
proof -
  have "(a, v) \<in> set (zip names (map Finite row))
          \<longleftrightarrow> map_of (zip names (map Finite row)) a = Some v"
    using assms(1,3) by (simp add: map_of_eq_Some_iff)
  also have "\<dots> \<longleftrightarrow> v = Finite (output_value names row a)"
    by (auto simp: map_of_zip_Finite output_value_member [OF assms(2,3)])
  finally show ?thesis
    using assms(1,3) by (simp add: dict_of_zip_distinct)
qed

lemma naive_pairs_columns:
  assumes "\<forall>a \<in> set added. \<exists>rs. map_of c a = Some (map Finite rs) \<and> rs \<noteq> [] \<and> set rs = column a"
    and "even (length added)"
  shows "naive_pairs c added = Inr (min_max_pairs column added)"
  using assms
proof (induction added rule: induct_list012)
  case 1
  show ?case by simp
next
  case (2 a)
  then show ?case by simp
next
  case (3 a b rest)
  from "3.prems"(1) obtain rs where a: "map_of c a = Some (map Finite rs)" "rs \<noteq> []" "set rs = column a"
    by auto
  from "3.prems"(1) obtain rs' where b: "map_of c b = Some (map Finite rs')" "rs' \<noteq> []" "set rs' = column b"
    by auto
  from "3.prems" have "naive_pairs c rest = Inr (min_max_pairs column rest)"
    by (intro "3.IH"(1)) auto
  with a b show ?case
    by (simp add: dict_getitem_def py_min_finite py_max_finite)
qed

lemma merge_dicts_values:
  assumes "map_of (merge_dicts ds) k = Some l"
  shows "set l = {v. \<exists>d \<in> set ds. (k, v) \<in> set d}"
  using merge_values [of "[]" ds k] assms
  by (simp add: merge_dicts_def values_at_def)

lemma merge_dicts_present:
  "map_of (merge_dicts ds) k \<noteq> None \<longleftrightarrow> (\<exists>d \<in> set ds. k \<in> fst ` set d)"
  using merge_None [of "[]" ds k] by (simp add: merge_dicts_def)

lemma drop_first_key_subdict:
  "map_of (drop_first_key m) k = Some l \<Longrightarrow> map_of m k = Some l"
  by (auto simp: map_of_drop_first_key split: option.splits if_splits)

lemma clean_nan_free:
  assumes "\<forall>out \<in> set outs. NaN \<notin> set out"
  shows "nan_free (drop_first_key (merge_dicts (map (\<lambda>out. dict_of (zip names out)) outs)))"
  unfolding nan_free_def
proof (intro allI impI)
  fix k l
  assume "map_of (drop_first_key (merge_dicts (map (\<lambda>out. dict_of (zip names out)) outs))) k = Some l"
  then have "map_of (merge_dicts (map (\<lambda>out. dict_of (zip names out)) outs)) k = Some l"
    by (rule drop_first_key_subdict)
  from merge_dicts_values [OF this]
  have l: "set l = {v. \<exists>out \<in> set outs. (k, v) \<in> set (dict_of (zip names out))}" by simp
  show "NaN \<notin> set l"
  proof
    assume "NaN \<in> set l"
    with l obtain out where out: "out \<in> set outs" and "(k, NaN) \<in> set (dict_of (zip names out))"
      by auto
    with set_dict_of [of "zip names out"] have "(k, NaN) \<in> set (zip names out)" by auto
    then have "NaN \<in> set out" by (rule set_zip_rightD)
    with assms out show False by simp
  qed
qed

lemma aggregate_permuted:
  assumes "set outs' = set outs"
    and "\<forall>out \<in> set outs. length out = length names"
    and "\<forall>out \<in> set outs. NaN \<notin> set out"
  shows "aggregate names num_model_outputs outs' calib_mode
           = aggregate names num_model_outputs outs calib_mode"
proof (cases "outs = []")
  case True
  with assms(1) show ?thesis by simp
next
  case False
  with assms(1) have False': "outs' \<noteq> []" by auto
  from assms have all': "\<forall>out \<in> set outs'. length out = length names" by simp
  from assms have nan': "\<forall>out \<in> set outs'. NaN \<notin> set out" by simp
  from False assms(2) have len: "length (hd outs) = length names" by simp
  from False' all' have len': "length (hd outs') = length names" by simp
  let ?f = "\<lambda>out. dict_of (zip names out)"
  let ?fk = "case names of [] \<Rightarrow> None | k # _ \<Rightarrow> Some k"
  have sv: "same_values (merge_dicts (map ?f outs')) (merge_dicts (map ?f outs))"
    by (rule merge_dicts_same_values) (simp add: assms(1))
  have fk: "first_key (merge_dicts (map ?f outs)) = ?fk"
    by (rule first_key_merge_dicts) (use assms(2) False in \<open>auto simp: first_key_dict_of_zip\<close>)
  have fk': "first_key (merge_dicts (map ?f outs')) = ?fk"
    by (rule first_key_merge_dicts) (use all' False' in \<open>auto simp: first_key_dict_of_zip\<close>)
  from fk fk' have "first_key (merge_dicts (map ?f outs')) = first_key (merge_dicts (map ?f outs))"
    by simp
  from naive_pairs_cong [OF drop_first_key_same_values [OF sv this] clean_nan_free [OF nan']]
  have "naive_pairs (drop_first_key (merge_dicts (map ?f outs'))) (drop num_model_outputs names)
          = naive_pairs (drop_first_key (merge_dicts (map ?f outs))) (drop num_model_outputs names)" .
  then show ?thesis
    unfolding aggregate_unfold [OF False len] aggregate_unfold [OF False' len'] by simp
qed

lemma keys_dict_of_zip:
  "distinct names \<Longrightarrow> length out = length names \<Longrightarrow> fst ` set (dict_of (zip names out)) = set names"
  by (simp add: dict_of_zip_distinct flip: set_map)

lemma probe_column:
  assumes names: "distinct names"
    and rows: "rows \<noteq> []" "\<forall>row \<in> set rows. length row = length names"
    and first: "1 \<le> num_model_outputs"
    and a: "a \<in> set (drop num_model_outputs names)"
  shows "\<exists>rs. map_of (drop_first_key (merge_dicts (map (\<lambda>out. dict_of (zip names out))
                                               (map (map Finite) rows)))) a
               = Some (map Finite rs)
             \<and> rs \<noteq> [] \<and> set rs = (\<lambda>row. output_value names row a) ` set rows"
proof -
  let ?f = "\<lambda>out. dict_of (zip names out)"
  let ?outs = "map (map Finite) rows"
  let ?merged = "merge_dicts (map ?f ?outs)"
  from a have mem: "a \<in> set names" by (rule in_set_dropD)
  then obtain k0 rest where split: "names = k0 # rest" by (cases names) auto
  from first have "drop num_model_outputs names = drop (num_model_outputs - 1) rest"
    by (cases num_model_outputs) (simp_all add: split)
  with a have "a \<in> set rest" by (auto dest: in_set_dropD)
  with names have other: "a \<noteq> k0" by (auto simp: split)
  have "first_key ?merged = (case names of [] \<Rightarrow> None | k # _ \<Rightarrow> Some k)"
    by (rule first_key_merge_dicts) (use rows in \<open>auto simp: first_key_dict_of_zip\<close>)
  then have fk: "first_key ?merged = Some k0" by (simp add: split)
  have clean: "map_of (drop_first_key ?merged) a = map_of ?merged a"
    unfolding map_of_drop_first_key fk using other by simp
  from rows obtain row where row: "row \<in> set rows" by (cases rows) auto
  with rows(2) names mem have "a \<in> fst ` set (?f (map Finite row))"
    by (simp add: keys_dict_of_zip)
  with row have "\<exists>d \<in> set (map ?f ?outs). a \<in> fst ` set d" by auto
  then have "map_of ?merged a \<noteq> None" by (simp only: merge_dicts_present)
  then obtain l where l: "map_of ?merged a = Some l" by auto
  from merge_dicts_values [OF l]
  have "set l = {v. \<exists>row \<in> set rows. (a, v) \<in> set (?f (map Finite row))}" by auto
  also have "\<dots> = {v. \<exists>row \<in> set rows. v = Finite (output_value names row a)}"
    using rows(2) by (auto simp: entry_of_run [OF names mem])
  finally have set_l: "set l = Finite ` (\<lambda>row. output_value names row a) ` set rows" by auto
  then have "NaN \<notin> set l" by auto
  then obtain rs where rs: "l = map Finite rs" using nan_free_list by blast
  with set_l have "Finite ` set rs = Finite ` (\<lambda>row. output_value names row a) ` set rows" by simp
  then have cols: "set rs = (\<lambda>row. output_value names row a) ` set rows"
    by (simp add: inj_image_eq_iff inj_on_def)
  with row have "rs \<noteq> []" by auto
  moreover from clean l rs
  have "map_of (drop_first_key ?merged) a = Some (map Finite rs)" by simp
  ultimately show ?thesis using cols by blast
qed

lemma aggregate_statistics:
  assumes "distinct names"
    and "rows \<noteq> []" and "\<forall>row \<in> set rows. length row = length names"
    and "1 \<le> num_model_outputs"
    and "even (length (drop num_model_outputs names))"
  shows "aggregate names num_model_outputs (map (map Finite) rows) ''naive''
           = Inr (dict_of (zip (node_names_of (drop num_model_outputs names))
                    (min_max_pairs (\<lambda>a. (\<lambda>row. output_value names row a) ` set rows)
                       (drop num_model_outputs names))))"
proof -
  let ?outs = "map (map Finite) rows"
  from assms(2) have ne: "?outs \<noteq> []" by simp
  from assms(2,3) have len: "length (hd ?outs) = length names"
    by (cases rows) simp_all
  have "naive_pairs (drop_first_key (merge_dicts (map (\<lambda>out. dict_of (zip names out)) ?outs)))
          (drop num_model_outputs names)
        = Inr (min_max_pairs (\<lambda>a. (\<lambda>row. output_value names row a) ` set rows)
                 (drop num_model_outputs names))"
    by (rule naive_pairs_columns [OF _ assms(5)])
       (use probe_column [OF assms(1-4)] in blast)
  then show ?thesis
    unfolding aggregate_unfold [OF ne len] by simp
qed

lemma get_intermediate_outputs_statistics:
  assumes load: "onnx_load files model_path = Inr m"
    and ins: "get_inputs session \<noteq> []"
    and some: "inputs \<noteq> []"
    and runs: "\<forall>x \<in> set inputs. finite_run session x (vals x)"
    and names: "distinct (map arg_name (get_outputs session))"
    and first: "1 \<le> length (graph_output (graph m))"
    and pairs: "even (length (drop (length (graph_output (graph m)))
                                (map arg_name (get_outputs session))))"
  shows "get_intermediate_outputs files model_path session inputs ''naive''
           = (Inr (dict_of (zip
                 (node_names_of (drop (length (graph_output (graph m)))
                                   (map arg_name (get_outputs session))))
                 (min_max_pairs
                    (\<lambda>a. (\<lambda>x. output_value (map arg_name (get_outputs session)) (vals x) a)
                            ` set inputs)
                    (drop (length (graph_output (graph m)))
                       (map arg_name (get_outputs session)))))),
              inputs)"
proof -
  let ?names = "map arg_name (get_outputs session)"
  let ?rows = "map vals inputs"
  from runs have ok: "\<forall>x \<in> set inputs. run_ok session x" by (auto intro: finite_run_ok)
  from runs have outs: "map (outputs_of session) inputs = map (map Finite) ?rows"
    by (simp add: finite_run_outputs)
  from runs have len: "\<forall>row \<in> set ?rows. length row = length ?names"
    by (auto simp: finite_run_def)
  from some have ne: "?rows \<noteq> []" by simp
  have cols: "(\<lambda>a. (\<lambda>row. output_value ?names row a) ` set ?rows)
                = (\<lambda>a. (\<lambda>x. output_value ?names (vals x) a) ` set inputs)"
    by (simp add: image_image)
  note stats = aggregate_statistics [OF names ne len first pairs, unfolded cols]
  from ins obtain first_input others where i: "get_inputs session = first_input # others"
    by (cases "get_inputs session") auto
  show ?thesis
    unfolding get_intermediate_outputs_def load i run_all_ok [OF ok] outs
    by (simp add: stats del: map_map)
qed

lemma ex_session_eq:
  "ex_session = \<lparr>get_inputs = [\<lparr>arg_name = ''x'', arg_shape = [1, 3, 2, 2]\<rparr>],
      get_outputs = [\<lparr>arg_name = ''X'', arg_shape = [1, 10]\<rparr>,
                     \<lparr>arg_name = ''X_ReduceMin'', arg_shape = []\<rparr>,
                     \<lparr>arg_name = ''X_ReduceMax'', arg_shape = []\<rparr>],
      run = (\<lambda>x. Inr [Finite x, Finite (x + 1), Finite (x + 3)])\<rparr>"
  by (simp add: ex_session_def ex_inference_session_def augment_graph_def ex_conv_model_def
        ex_conv_def quantization_candidates_def make_node_def make_tensor_value_info_def Let_def)

lemma ex_aggregate:
  "aggregate [''X'', ''X_ReduceMin'', ''X_ReduceMax''] (Suc 0)
     [[Finite 0, Finite 1, Finite 3], [Finite 5, Finite 6, Finite 8],
      [Finite 2, Finite 3, Finite 5]] ''naive''
     = Inr [(''X'', (Finite 1, Finite 8))]"
  by (simp add: aggregate_def dict_of_def merge_dicts_def dict_getitem_def py_min_def py_max_def
        rpartition_head_def Let_def)

lemma ex_get_intermediate_outputs:
  "get_intermediate_outputs ex_files ''model.onnx'' ex_session [0, 5, 2] ''naive''
     = (Inr [(''X'', (Finite 1, Finite 8))], [0, 5, 2])"
  by (simp add: get_intermediate_outputs_def ex_files_def onnx_load_def ex_session_eq
        ex_conv_model_def make_tensor_value_info_def ex_aggregate)

lemma ex_get_intermediate_outputs_other:
  "get_intermediate_outputs ex_files ''model.onnx'' ex_session [0, 5, 2] ''percentile''
     = (Inl ValueError, [0, 5, 2])"
  by (simp add: get_intermediate_outputs_def ex_files_def onnx_load_def ex_session_eq
        ex_conv_model_def make_tensor_value_info_def aggregate_def Let_def)

lemma ex_finite_runs:
  "\<forall>x \<in> set [0, 5, 2 :: real]. finite_run ex_session x [x, x + 1, x + 3]"
  by (simp add: finite_run_def ex_session_eq)

text \<open>
  Claim C6, as stated, fails: a min-probe value that is NaN is kept by Python's \<open>min\<close>
  when it comes first and skipped when it comes later, so that a dataset of two samples
  and its reversal give different statistics.
\<close>

theorem aggregation_order_dependent_counterexample:
  "fst (get_intermediate_outputs ex_files ''model.onnx'' ex_nan_session [0, 1] ''naive'')
     = Inr [(''X'', (NaN, Finite 4))]
   \<and> fst (get_intermediate_outputs ex_files ''model.onnx'' ex_nan_session [1, 0] ''naive'')
     = Inr [(''X'', (Finite 2, Finite 4))]"
  by (simp add: get_intermediate_outputs_def ex_files_def onnx_load_def ex_nan_session_def
        ex_conv_model_def make_tensor_value_info_def aggregate_def dict_of_def merge_dicts_def
        dict_getitem_def py_min_def py_max_def rpartition_head_def Let_def)

text \<open>
  Claim C6, amended. On a dataset for which every inference call succeeds with one finite
  value (no NaN) per declared output, \<open>get_intermediate_outputs\<close> returns for any
  permutation of the dataset what it returns for the dataset itself, the statistics map or
  the exception. When moreover the model file loads, the session has an input and outputs
  with distinct names, the dataset is not empty, the original model declares an output
  and the outputs after the original ones come in pairs, the map holds, under the name
  cut from the first output of each pair, the least value of that output over the dataset
  and the greatest value of the second output of the pair.
\<close>

theorem aggregation_order_independent:
  assumes "mset inputs' = mset inputs"
    and "\<forall>x \<in> set inputs. finite_run session x (vals x)"
  shows "fst (get_intermediate_outputs files model_path session inputs' calib_mode)
           = fst (get_intermediate_outputs files model_path session inputs calib_mode)
       \<and> (onnx_load files model_path = Inr m \<and> get_inputs session \<noteq> [] \<and> inputs \<noteq> []
            \<and> distinct (map arg_name (get_outputs session))
            \<and> 1 \<le> length (graph_output (graph m))
            \<and> even (length (drop (length (graph_output (graph m)))
                               (map arg_name (get_outputs session))))
          \<longrightarrow> fst (get_intermediate_outputs files model_path session inputs ''naive'')
                = Inr (dict_of (zip
                    (node_names_of (drop (length (graph_output (graph m)))
                                      (map arg_name (get_outputs session))))
                    (min_max_pairs
                       (\<lambda>a. (\<lambda>x. output_value (map arg_name (get_outputs session)) (vals x) a)
                               ` set inputs)
                       (drop (length (graph_output (graph m)))
                          (map arg_name (get_outputs session)))))))"
proof -
  from assms(1) have sets: "set inputs' = set inputs" by (rule mset_eq_setD)
  from assms(2) have ok: "\<forall>x \<in> set inputs. run_ok session x" by (auto intro: finite_run_ok)
  with sets have ok': "\<forall>x \<in> set inputs'. run_ok session x" by simp
  let ?names = "map arg_name (get_outputs session)"
  have len: "\<forall>out \<in> set (map (outputs_of session) inputs). length out = length ?names"
    using ok by (auto simp: run_ok_def outputs_of_def split: sum.splits)
  have nan: "\<forall>out \<in> set (map (outputs_of session) inputs). NaN \<notin> set out"
    using assms(2) by (auto simp: finite_run_outputs)
  have "aggregate ?names n (map (outputs_of session) inputs') calib_mode
          = aggregate ?names n (map (outputs_of session) inputs) calib_mode" for n
    by (rule aggregate_permuted [OF _ len nan]) (simp add: sets)
  then have same: "fst (get_intermediate_outputs files model_path session inputs' calib_mode)
           = fst (get_intermediate_outputs files model_path session inputs calib_mode)"
    by (simp add: get_intermediate_outputs_def run_all_ok [OF ok] run_all_ok [OF ok']
          Let_def split: sum.splits list.splits)
  from get_intermediate_outputs_statistics [OF _ _ _ assms(2)] same show ?thesis
    by simp
qed

theorem aggregation_order_independent_witness:
  "fst (get_intermediate_outputs ex_files ''model.onnx'' ex_session [2, 0, 5] ''naive'')
     = Inr [(''X'', (Finite 1, Finite 8))]
   \<and> fst (get_intermediate_outputs ex_files ''model.onnx'' ex_session [0, 5, 2] ''naive'')
     = Inr [(''X'', (Finite 1, Finite 8))]"
proof -
  have perm: "mset [2, 0, 5 :: real] = mset [0, 5, 2]" by (simp add: add_ac)
  have load: "onnx_load ex_files ''model.onnx'' = Inr ex_conv_model"
    by (simp add: onnx_load_def ex_files_def)
  have names: "map arg_name (get_outputs ex_session) = [''X'', ''X_ReduceMin'', ''X_ReduceMax'']"
    by (simp add: ex_session_eq)
  have outs: "length (graph_output (graph ex_conv_model)) = 1"
    by (simp add: ex_conv_model_def)
  have ins: "get_inputs ex_session \<noteq> []" by (simp add: ex_session_eq)
  from aggregation_order_independent
         [OF perm ex_finite_runs, of ex_files "''model.onnx''" "''naive''" ex_conv_model]
  show ?thesis
    by (simp add: load names outs ins dict_of_def rpartition_head_def output_value_def)
qed

text \<open>
  Claim C1, as stated, fails: with an unsupported mode the exception is raised after
  \<open>session.run\<close> has been invoked on all three samples.
\<close>

theorem unsupported_mode_before_inference_counterexample:
  "get_intermediate_outputs ex_files ''model.onnx'' ex_session [0, 5, 2] ''percentile''
     = (Inl ValueError, [0, 5, 2])
   \<and> [0, 5, 2 :: real] \<noteq> []"
  by (simp add: ex_get_intermediate_outputs_other)

text \<open>
  Claim C1, amended. With a mode other than \<open>naive\<close>, a model file that loads, a session
  with an input, at least one sample and inference calls that succeed with one tensor per
  declared output, \<open>get_intermediate_outputs\<close> raises \<open>ValueError\<close>, and it does so
  after it has invoked \<open>session.run\<close> on every sample, in dataset order.
\<close>

theorem unsupported_mode_fails_after_inference:
  assumes "calib_mode \<noteq> ''naive''"
    and "onnx_load files model_path = Inr m"
    and "get_inputs session \<noteq> []"
    and "inputs \<noteq> []"
    and "\<forall>x \<in> set inputs. run_ok session x"
  shows "get_intermediate_outputs files model_path session inputs calib_mode
           = (Inl ValueError, inputs)"
proof -
  from assms(4) obtain x xs where inputs: "inputs = x # xs" by (cases inputs) auto
  with assms(5) have "run_ok session x" by simp
  then have len: "length (outputs_of session x) = length (get_outputs session)"
    by (auto simp: run_ok_def outputs_of_def split: sum.splits)
  have "aggregate (map arg_name (get_outputs session)) n
          (map (outputs_of session) inputs) calib_mode = Inl ValueError" for n
    using assms(1) len by (simp add: inputs aggregate_def Let_def)
  with assms(2,3) show ?thesis
    by (simp add: get_intermediate_outputs_def run_all_ok [OF assms(5)] Let_def
          split: list.splits)
qed

theorem unsupported_mode_fails_after_inference_witness:
  "get_intermediate_outputs ex_files ''model.onnx'' ex_session [0, 5, 2] ''percentile''
     = (Inl ValueError, [0, 5, 2])"
proof -
  have mode: "''percentile'' \<noteq> ''naive''" by simp
  have load: "onnx_load ex_files ''model.onnx'' = Inr ex_conv_model"
    by (simp add: onnx_load_def ex_files_def)
  have ins: "get_inputs ex_session \<noteq> []" by (simp add: ex_session_eq)
  have some: "[0, 5, 2 :: real] \<noteq> []" by simp
  have ok: "\<forall>x \<in> set [0, 5, 2 :: real]. run_ok ex_session x"
    by (simp add: run_ok_def ex_session_eq)
  show ?thesis
    by (rule unsupported_mode_fails_after_inference [OF mode load ins some ok])
qed

text \<open>
  Claim C5, as stated, fails: the statistics map that aggregation produces holds the raw
  minimum and maximum, here \<open>(1, 8)\<close>, whose minimum is above zero.
\<close>



section \<open>Parameter derivation\<close>

lemma py_round_cases: "py_round x = \<lfloor>x\<rfloor> \<or> (py_round x = \<lfloor>x\<rfloor> + 1 \<and> 1 / 2 \<le> x - of_int \<lfloor>x\<rfloor>)"
  by (auto simp: py_round_def Let_def)

lemma py_round_bounds:
  assumes "0 \<le> x" and "x \<le> 255"
  shows "0 \<le> py_round x \<and> py_round x \<le> 255"
proof -
  from assms have fl: "0 \<le> \<lfloor>x\<rfloor>" "\<lfloor>x\<rfloor> \<le> 255" by (simp_all add: floor_le_iff le_floor_iff)
  from py_round_cases [of x] show ?thesis
  proof
    assume "py_round x = \<lfloor>x\<rfloor>"
    with fl show ?thesis by simp
  next
    assume up: "py_round x = \<lfloor>x\<rfloor> + 1 \<and> 1 / 2 \<le> x - of_int \<lfloor>x\<rfloor>"
    have "x \<noteq> 255"
    proof
      assume "x = 255"
      with up show False by simp
    qed
    with assms(2) have "x < 255" by simp
    then have "\<lfloor>x\<rfloor> < 255" by (simp add: floor_less_iff)
    with fl up show ?thesis by simp
  qed
qed

lemma py_round_zero: "py_round 0 = 0"
  by (simp add: py_round_def)

lemma clamp_bounds: "0 \<le> max 0 (min 255 (x::real)) \<and> max 0 (min 255 x) \<le> 255"
  by simp

lemma uint_zero_point:
  "uint (fst (scale_zeropoint r))
     = py_round (max 0 (min 255 ((0 - fst r) / snd (scale_zeropoint r))))"
proof -
  let ?x = "max 0 (min 255 ((0 - fst r) / snd (scale_zeropoint r)))"
  have "0 \<le> py_round ?x \<and> py_round ?x \<le> 255"
    by (rule py_round_bounds) simp_all
  then have "uint (word_of_int (py_round ?x) :: 8 word) = py_round ?x"
    by (simp add: uint_word_of_int take_bit_int_eq_self)
  then show ?thesis by (simp add: scale_zeropoint_def Let_def)
qed

lemma zero_point_range:
  "0 \<le> uint (fst (scale_zeropoint r)) \<and> uint (fst (scale_zeropoint r)) \<le> 255"
  unfolding uint_zero_point by (rule py_round_bounds) simp_all

lemma scale_nonzero: "snd (scale_zeropoint r) \<noteq> 0"
  by (simp add: scale_zeropoint_def Let_def)

lemma scale_positive_iff: "0 < snd (scale_zeropoint r) \<longleftrightarrow> fst r \<le> snd r"
  by (auto simp: scale_zeropoint_def Let_def)

lemma scale_value:
  "snd (scale_zeropoint r) = (if fst r \<noteq> snd r then (snd r - fst r) / 255 else 1)"
  by (simp add: scale_zeropoint_def Let_def)


lemma adjust_range_relu:
  assumes "op_type nx = ''Relu''"
  shows "adjust_range nx (lo, hi) = Inr (max lo 0, hi)"
  using assms by (auto simp: adjust_range_def max_def)

lemma adjust_range_other:
  assumes "op_type nx \<noteq> ''Clip''" and "op_type nx \<noteq> ''Relu''"
  shows "adjust_range nx r = Inr r"
  using assms by (cases r) (simp add: adjust_range_def)

lemma adjust_range_shrinks:
  assumes "adjust_range nx (lo, hi) = Inr (lo', hi')"
  shows "lo \<le> lo' \<and> hi' \<le> hi"
  using assms
  by (auto simp: adjust_range_def Let_def split: if_splits list.splits)

lemma calculate_scale_zeropoint_error:
  "calculate_scale_zeropoint n nx rmin rmax = Inl e \<Longrightarrow> e = IndexError"
  by (auto simp: calculate_scale_zeropoint_def adjust_range_def Let_def
           split: if_splits list.splits sum.splits prod.splits)

lemma calculate_scale_zeropoint_float_error:
  "calculate_scale_zeropoint_float n nx rmin rmax = Inl e \<Longrightarrow> e = IndexError"
  by (auto simp: calculate_scale_zeropoint_float_def
           split: pyfloat.splits sum.splits prod.splits if_splits
           dest: calculate_scale_zeropoint_error)

lemma quantization_params_loop_entries:
  assumes "quantization_params_loop nodes th rest index params = Inr out"
    and "nodes = pre @ rest" and "index = length pre"
    and "\<forall>(k, p) \<in> set params. \<exists>i. derived_from nodes th k p i"
  shows "\<forall>(k, p) \<in> set out. \<exists>i. derived_from nodes th k p i"
  using assms
proof (induction rest arbitrary: index params pre)
  case Nil
  then show ?case by simp
next
  case (Cons n rest)
  from Cons.prems(1) obtain k outs where out: "node_output n = k # outs"
    by (cases "node_output n") auto
  from Cons.prems(2,3) have split: "nodes = (pre @ [n]) @ rest" "index + 1 = length (pre @ [n])"
    by simp_all
  from Cons.prems(2,3) have nth: "nodes ! index = n" by simp
  show ?case
  proof (cases "map_of th k")
    case None
    with Cons.prems(1) out
    have "quantization_params_loop nodes th rest (index + 1) params = Inr out" by simp
    from Cons.IH [OF this split Cons.prems(4)] show ?thesis .
  next
    case (Some t)
    with Cons.prems(1) out have bound: "index + 1 < length nodes"
      by (auto split: if_splits)
    with Cons.prems(1) out Some obtain p where
      p: "calculate_scale_zeropoint_float n (nodes ! (index + 1)) (fst t) (snd t) = Inr p"
      and run: "quantization_params_loop nodes th rest (index + 1) (dict_setitem params k p) = Inr out"
      by (auto split: sum.splits)
    have new: "derived_from nodes th k p index"
      using bound nth out Some p by (simp add: derived_from_def)
    have "\<forall>(k', p') \<in> set (dict_setitem params k p). \<exists>i. derived_from nodes th k' p' i"
      using Cons.prems(4) new set_dict_setitem [of params k p] by auto
    from Cons.IH [OF run split this] show ?thesis .
  qed
qed

lemma calculate_quantization_params_entries:
  assumes "calculate_quantization_params model nbits quantization_thresholds = Inr params"
    and "(k, p) \<in> set params"
  shows "nbits = 8 \<and> (\<exists>th i. quantization_thresholds = Some th
           \<and> derived_from (node (graph model)) th k p i)"
proof -
  from assms(1) have nb: "nbits = 8"
    by (auto simp: calculate_quantization_params_def split: if_splits)
  with assms(1) obtain th where th: "quantization_thresholds = Some th"
    and run: "quantization_params_loop (node (graph model)) th (node (graph model)) 0 [] = Inr params"
    by (auto simp: calculate_quantization_params_def split: option.splits)
  have "\<forall>(k, p) \<in> set params. \<exists>i. derived_from (node (graph model)) th k p i"
    by (rule quantization_params_loop_entries [OF run, of "[]"]) simp_all
  with assms(2) nb th show ?thesis by auto
qed

lemma quantization_params_loop_last:
  assumes "nodes = pre @ rest @ [n]" and "index = length pre"
    and "node_output n = k # outs" and "map_of th k = Some t"
  shows "quantization_params_loop nodes th (rest @ [n]) index params = Inl IndexError"
  using assms(1,2)
proof (induction rest arbitrary: index params pre)
  case Nil
  then show ?case using assms(3,4) by simp
next
  case (Cons m rest)
  from Cons.prems have split: "nodes = (pre @ [m]) @ rest @ [n]" "Suc index = length (pre @ [m])"
    by simp_all
  note IH = Cons.IH [OF split]
  show ?case
    by (auto simp: IH split: list.splits option.splits sum.splits
             dest: calculate_scale_zeropoint_float_error)
qed

text \<open>
  Claim C4, as stated, fails: with observed minimum and maximum 2 and a successor that is
  neither \<open>Clip\<close> nor \<open>Relu\<close>, the range is first widened to contain zero, so it is
  \<open>[0, 2]\<close>, not degenerate, and the scale is \<open>2 / 255\<close>, not 1.
\<close>

theorem degenerate_range_scale_counterexample:
  "calculate_scale_zeropoint ex_conv ex_matmul 2 2 = Inr (0, 2 / 255)
   \<and> calculate_scale_zeropoint ex_conv ex_matmul 2 2 \<noteq> Inr (0, 1)"
  by (simp add: calculate_scale_zeropoint_def include_zero_def adjust_range_def
        scale_zeropoint_def ex_matmul_def py_round_zero)

text \<open>
  Claim C4, amended. For a successor that is neither \<open>Clip\<close> nor \<open>Relu\<close>, observed
  minimum and maximum 2 give scale \<open>2 / 255\<close> and zero point 0; the fallback scale 1 is
  what a range that is degenerate after the widening gives, as for observed minimum and
  maximum 0, again with zero point 0.
\<close>

theorem degenerate_range_scale:
  assumes "op_type nx \<noteq> ''Clip''" and "op_type nx \<noteq> ''Relu''"
  shows "calculate_scale_zeropoint n nx 2 2 = Inr (0, 2 / 255)
       \<and> calculate_scale_zeropoint n nx 0 0 = Inr (0, 1)"
  using assms
  by (simp add: calculate_scale_zeropoint_def include_zero_def adjust_range_other
        scale_zeropoint_def py_round_zero)

theorem degenerate_range_scale_witness:
  "calculate_scale_zeropoint ex_conv ex_matmul 2 2 = Inr (0, 2 / 255)
   \<and> calculate_scale_zeropoint ex_conv ex_matmul 0 0 = Inr (0, 1)"
proof -
  have a: "op_type ex_matmul \<noteq> ''Clip''" and b: "op_type ex_matmul \<noteq> ''Relu''"
    by (simp_all add: ex_matmul_def)
  show ?thesis by (rule degenerate_range_scale [OF a b])
qed

text \<open>
  Claim C7. The source takes \<open>attribute[0]\<close> of a \<open>Clip\<close> successor for the lower and
  \<open>attribute[1]\<close> for the upper bound, whatever their names. For the \<open>Clip\<close> with
  bounds \<open>[0, 6]\<close> that \<open>onnx.helper.make_node\<close> builds, which stores \<open>max\<close> first,
  the observed range \<open>[-2, 10]\<close> becomes \<open>[6, 0]\<close>, with scale \<open>- 6 / 255\<close> and zero
  point 255, where the claim has \<open>[0, 6]\<close>, \<open>6 / 255\<close> and 0. The claim's values are
  what the source computes when the same bounds are stored with \<open>min\<close> first.
\<close>

theorem clip_bounds_read_by_position:
  "adjust_range ex_clip (include_zero (- 2) 10) = Inr (6, 0)
   \<and> calculate_scale_zeropoint ex_conv ex_clip (- 2) 10 = Inr (255, - (6 / 255))
   \<and> adjust_range ex_clip_min_first (include_zero (- 2) 10) = Inr (0, 6)
   \<and> calculate_scale_zeropoint ex_conv ex_clip_min_first (- 2) 10 = Inr (0, 6 / 255)"
  by (simp add: calculate_scale_zeropoint_def include_zero_def adjust_range_def
        scale_zeropoint_def ex_clip_def ex_clip_min_first_def py_round_def)

text \<open>
  Claim C3. For a convolution followed by that \<open>Clip\<close> with bounds \<open>[0, 6]\<close> and the
  statistics \<open>(-2, 10)\<close>, \<open>calculate_quantization_params\<close> returns a parameter whose
  scale is negative, where the claim has a positive scale.
\<close>

theorem negative_scale_after_clip:
  "calculate_quantization_params ex_clip_model 8 (Some [(''X'', (Finite (- 2), Finite 10))])
     = Inr [(''X'', (255, Finite (- (6 / 255))))]
   \<and> - (6 / 255) < (0 :: real)"
  by (simp add: calculate_quantization_params_def ex_clip_model_def ex_conv_def ex_clip_def
        calculate_scale_zeropoint_float_def calculate_scale_zeropoint_def include_zero_def
        adjust_range_def scale_zeropoint_def py_round_def)

text \<open>
  Claim C10. When the last node of the supplied graph has a first output with a statistics
  entry, \<open>calculate_quantization_params\<close> ends in \<open>IndexError\<close> and returns no
  parameters: whatever was accumulated when the loop reaches that node, the lookup of
  \<open>model.graph.node[index+1]\<close> is out of range.
\<close>

theorem last_node_successor_out_of_bounds:
  assumes "node (graph model) = pre @ [n]"
    and "node_output n = k # outs" and "map_of thresholds k = Some t"
  shows "calculate_quantization_params model 8 (Some thresholds) = Inl IndexError
       \<and> quantization_params_loop (node (graph model)) thresholds [n] (length pre) params
           = Inl IndexError"
proof -
  have whole: "quantization_params_loop (node (graph model)) thresholds (pre @ [n]) 0 []
                 = Inl IndexError"
    by (rule quantization_params_loop_last [OF _ _ assms(2,3), of _ "[]"]) (simp_all add: assms(1))
  have last: "quantization_params_loop (node (graph model)) thresholds ([] @ [n]) (length pre) params
                = Inl IndexError"
    by (rule quantization_params_loop_last [OF _ _ assms(2,3), of _ pre]) (simp_all add: assms(1))
  from whole last show ?thesis
    by (simp add: calculate_quantization_params_def assms(1))
qed

theorem last_node_successor_out_of_bounds_witness:
  "calculate_quantization_params ex_model 8 (Some [(''Z'', (Finite (- 1), Finite 4))]) = Inl IndexError"
proof -
  have a: "node (graph ex_model) = [ex_conv, ex_relu] @ [ex_matmul]"
    by (simp add: ex_model_def)
  have b: "node_output ex_matmul = ''Z'' # []" by (simp add: ex_matmul_def)
  have c: "map_of [(''Z'', (Finite (- 1), Finite 4))] ''Z'' = Some (Finite (- 1), Finite 4)"
    by simp
  show ?thesis
    using last_node_successor_out_of_bounds [OF a b c] by simp
qed




section \<open>The pipeline of \<open>main\<close>\<close>

lemma probe_nodes_filter:
  "filter eligible ns = n # others \<Longrightarrow> \<exists>probes. probe_nodes ns = min_probe n # probes"
  by (induction ns) (auto split: if_splits)

lemma map_of_dict_setitem: "map_of (dict_setitem d k v) = (map_of d)(k \<mapsto> v)"
  by (induction d k v rule: dict_setitem.induct) auto

lemma quantization_params_loop_keeps:
  assumes "quantization_params_loop nodes th rest index params = Inr out"
    and "\<forall>n \<in> set rest. \<not> produces n k"
  shows "map_of out k = map_of params k"
  using assms
proof (induction rest arbitrary: index params)
  case Nil
  then show ?case by simp
next
  case (Cons n rest)
  from Cons.prems(1) obtain k' outs where out: "node_output n = k' # outs"
    by (cases "node_output n") auto
  with Cons.prems(2) have neq: "k' \<noteq> k" by (simp add: produces_def)
  from Cons.prems(2) have rest: "\<forall>n \<in> set rest. \<not> produces n k" by simp
  show ?case
  proof (cases "map_of th k'")
    case None
    with Cons.prems(1) out
    have "quantization_params_loop nodes th rest (index + 1) params = Inr out" by simp
    from Cons.IH [OF this rest] show ?thesis .
  next
    case (Some t)
    with Cons.prems(1) out obtain p where
      run: "quantization_params_loop nodes th rest (index + 1) (dict_setitem params k' p) = Inr out"
      by (auto split: sum.splits if_splits)
    from Cons.IH [OF run rest] neq show ?thesis by (simp add: map_of_dict_setitem)
  qed
qed

lemma quantization_params_loop_complete:
  assumes "quantization_params_loop nodes th rest index params = Inr out"
    and "nodes = pre @ rest" and "index = length pre"
    and "last_producer nodes k i" and "index \<le> i" and "map_of th k = Some t"
  shows "\<exists>p. map_of out k = Some p \<and> derived_from nodes th k p i"
  using assms(1,2,3,5)
proof (induction rest arbitrary: index params pre)
  case Nil
  with assms(4) show ?case by (simp add: last_producer_def)
next
  case (Cons n rest)
  from Cons.prems(1) obtain k' outs where out: "node_output n = k' # outs"
    by (cases "node_output n") auto
  from Cons.prems(2,3) have split: "nodes = (pre @ [n]) @ rest" "index + 1 = length (pre @ [n])"
    by simp_all
  from Cons.prems(2,3) have nth: "nodes ! index = n" by simp
  show ?case
  proof (cases "i = index")
    case True
    with assms(4) nth out have k': "k' = k" by (simp add: last_producer_def produces_def)
    from assms(4) True Cons.prems(2,3) have later: "\<forall>n \<in> set rest. \<not> produces n k"
      by (simp add: last_producer_def)
    from Cons.prems(1) out k' assms(6) have bound: "index + 1 < length nodes"
      by (auto split: if_splits)
    with Cons.prems(1) out k' assms(6) obtain p where
      p: "calculate_scale_zeropoint_float n (nodes ! (index + 1)) (fst t) (snd t) = Inr p"
      and run: "quantization_params_loop nodes th rest (index + 1) (dict_setitem params k p) = Inr out"
      by (auto split: sum.splits)
    from quantization_params_loop_keeps [OF run later]
    have "map_of out k = Some p" by (simp add: map_of_dict_setitem)
    moreover have "derived_from nodes th k p i"
      using bound nth out k' assms(6) p True by (simp add: derived_from_def)
    ultimately show ?thesis by blast
  next
    case False
    with Cons.prems(4) have le: "index + 1 \<le> i" by simp
    show ?thesis
    proof (cases "map_of th k'")
      case None
      with Cons.prems(1) out
      have "quantization_params_loop nodes th rest (index + 1) params = Inr out" by simp
      from Cons.IH [OF this split le] show ?thesis .
    next
      case (Some t')
      with Cons.prems(1) out obtain p where
        run: "quantization_params_loop nodes th rest (index + 1) (dict_setitem params k' p) = Inr out"
        by (auto split: sum.splits if_splits)
      from Cons.IH [OF run split le] show ?thesis .
    qed
  qed
qed

lemma calculate_quantization_params_complete:
  assumes "calculate_quantization_params model 8 (Some th) = Inr params"
    and "last_producer (node (graph model)) k i" and "map_of th k = Some t"
  shows "\<exists>p. map_of params k = Some p \<and> derived_from (node (graph model)) th k p i"
proof -
  from assms(1)
  have run: "quantization_params_loop (node (graph model)) th (node (graph model)) 0 [] = Inr params"
    by (simp add: calculate_quantization_params_def)
  show ?thesis
    by (rule quantization_params_loop_complete [OF run _ _ assms(2) _ assms(3), of "[]"]) simp_all
qed

lemma main_quantization_params_unfold:
  assumes "onnx_load files model_path = Inr m"
    and "augment_graph 0 [m] = (Inr 0, [a])"
    and "get_inputs (inference_session a) = first_input # others"
    and "length (arg_shape first_input) = 4"
  shows "main_quantization_params inference_session inputs model_path calib_mode files =
     (case get_intermediate_outputs (files(''augmented_model.onnx'' \<mapsto> a)) model_path
             (inference_session a) inputs calib_mode of
        (Inl e, calls) \<Rightarrow> (Inl e, files(''augmented_model.onnx'' \<mapsto> a), [a], calls)
      | (Inr dict_for_quantization, calls) \<Rightarrow>
          (calculate_quantization_params a 8 (Some dict_for_quantization),
           files(''augmented_model.onnx'' \<mapsto> a), [a], calls))"
  by (simp add: main_quantization_params_def assms Let_def split: prod.splits sum.splits)

text \<open>
  Claim C9, amended. When the model loads, its eligible nodes have an output, the session
  of the augmented graph has a first input of rank four and \<open>get_intermediate_outputs\<close>
  returns the statistics \<open>th\<close>, the result of \<open>main\<close> is that of
  \<open>calculate_quantization_params\<close> on the graph that \<open>augment_graph\<close> extended in place
  and on \<open>th\<close>. The node list of that graph is the original node list followed by the
  probe nodes: the node after an original node that is not the last is its successor in
  the original list, and the node after the last original node is the min-probe of the
  first eligible node. If parameters are returned, each of them was computed for a node
  of that list and the node at the next position, and each key of the statistics has the
  parameter computed for the last node that has it as first output and the node at the
  next position.
\<close>

theorem derivation_uses_augmented_graph:
  assumes "onnx_load files model_path = Inr m"
    and "\<forall>n \<in> set (node (graph m)). eligible n \<longrightarrow> node_output n \<noteq> []"
    and "get_inputs (inference_session (augmented m)) = first_input # others"
    and "length (arg_shape first_input) = 4"
    and "get_intermediate_outputs (files(''augmented_model.onnx'' \<mapsto> augmented m)) model_path
           (inference_session (augmented m)) inputs calib_mode = (Inr th, calls)"
  shows "main_quantization_params inference_session inputs model_path calib_mode files
           = (calculate_quantization_params (augmented m) 8 (Some th),
              files(''augmented_model.onnx'' \<mapsto> augmented m), [augmented m], calls)
       \<and> node (graph (augmented m)) = node (graph m) @ probe_nodes (node (graph m))
       \<and> (\<forall>i. i + 1 < length (node (graph m))
              \<longrightarrow> node (graph (augmented m)) ! (i + 1) = node (graph m) ! (i + 1))
       \<and> (\<forall>n ns. filter eligible (node (graph m)) = n # ns
              \<longrightarrow> node (graph (augmented m)) ! length (node (graph m)) = min_probe n)
       \<and> (\<forall>params. calculate_quantization_params (augmented m) 8 (Some th) = Inr params \<longrightarrow>
            (\<forall>(k, p) \<in> set params. \<exists>i. derived_from (node (graph (augmented m))) th k p i)
          \<and> (\<forall>k i. last_producer (node (graph (augmented m))) k i \<and> k \<in> dom (map_of th)
                \<longrightarrow> (\<exists>p. map_of params k = Some p
                         \<and> derived_from (node (graph (augmented m))) th k p i)))"
proof -
  let ?a = "augmented m"
  have main: "main_quantization_params inference_session inputs model_path calib_mode files
           = (calculate_quantization_params ?a 8 (Some th),
              files(''augmented_model.onnx'' \<mapsto> ?a), [?a], calls)"
    unfolding main_quantization_params_unfold
        [where inference_session = inference_session,
         OF assms(1) augment_graph_augmented [OF assms(2)] assms(3) assms(4)]
    by (simp add: assms(5))
  have nodes: "node (graph ?a) = node (graph m) @ probe_nodes (node (graph m))"
    by (simp add: augmented_def)
  have same: "\<forall>i. i + 1 < length (node (graph m))
              \<longrightarrow> node (graph ?a) ! (i + 1) = node (graph m) ! (i + 1)"
    by (simp add: nodes nth_append)
  have first: "\<forall>n ns. filter eligible (node (graph m)) = n # ns
              \<longrightarrow> node (graph ?a) ! length (node (graph m)) = min_probe n"
  proof (intro allI impI)
    fix n ns assume "filter eligible (node (graph m)) = n # ns"
    from probe_nodes_filter [OF this] obtain probes where
      "probe_nodes (node (graph m)) = min_probe n # probes" by blast
    then show "node (graph ?a) ! length (node (graph m)) = min_probe n"
      by (simp add: nodes nth_append)
  qed
  have params: "\<forall>params. calculate_quantization_params ?a 8 (Some th) = Inr params \<longrightarrow>
            (\<forall>(k, p) \<in> set params. \<exists>i. derived_from (node (graph ?a)) th k p i)
          \<and> (\<forall>k i. last_producer (node (graph ?a)) k i \<and> k \<in> dom (map_of th)
                \<longrightarrow> (\<exists>p. map_of params k = Some p \<and> derived_from (node (graph ?a)) th k p i))"
  proof (intro allI impI conjI)
    fix params assume run: "calculate_quantization_params ?a 8 (Some th) = Inr params"
    show "\<forall>(k, p) \<in> set params. \<exists>i. derived_from (node (graph ?a)) th k p i"
      using calculate_quantization_params_entries [OF run] by auto
    fix k i assume "last_producer (node (graph ?a)) k i \<and> k \<in> dom (map_of th)"
    then obtain t where lp: "last_producer (node (graph ?a)) k i" and t: "map_of th k = Some t"
      by auto
    from calculate_quantization_params_complete [OF run lp t]
    show "\<exists>p. map_of params k = Some p \<and> derived_from (node (graph ?a)) th k p i" .
  qed
  from main nodes same first params show ?thesis by (intro conjI)
qed

lemma ex_augmented: "augment_graph 0 [ex_conv_model] = (Inr 0, [ex_augmented_model])"
  by (simp add: augment_graph_def ex_conv_model_def ex_conv_def quantization_candidates_def
        ex_augmented_model_def min_probe_def max_probe_def min_probe_output_def max_probe_output_def Let_def
        make_node_def make_tensor_value_info_def)

lemma ex_main_quantization_params:
  "main_quantization_params ex_inference_session [0, 5, 2] ''model.onnx'' ''naive'' ex_files
     = (Inr [(''X'', (0, Finite (8 / 255)))],
        ex_files(''augmented_model.onnx'' \<mapsto> ex_augmented_model),
        [ex_augmented_model], [0, 5, 2])"
proof -
  let ?a = ex_augmented_model
  have load: "onnx_load ex_files ''model.onnx'' = Inr ex_conv_model"
    by (simp add: onnx_load_def ex_files_def)
  have sess: "ex_inference_session ?a = ex_session"
    by (simp add: ex_session_def ex_augmented)
  have ins: "get_inputs (ex_inference_session ?a) = \<lparr>arg_name = ''x'', arg_shape = [1, 3, 2, 2]\<rparr> # []"
    by (simp add: ex_inference_session_def)
  have shape: "length (arg_shape \<lparr>arg_name = ''x'', arg_shape = [1, 3, 2, 2]\<rparr>) = 4" by simp
  have files: "get_intermediate_outputs
                 (ex_files(''augmented_model.onnx'' \<mapsto> m)) ''model.onnx'' ex_session [0, 5, 2] ''naive''
               = get_intermediate_outputs ex_files ''model.onnx'' ex_session [0, 5, 2] ''naive''" for m
    by (simp add: get_intermediate_outputs_def onnx_load_def ex_files_def)
  have params: "calculate_quantization_params ?a 8 (Some [(''X'', (Finite 1, Finite 8))])
                = Inr [(''X'', (0, Finite (8 / 255)))]"
    by (simp add: calculate_quantization_params_def ex_augmented_model_def ex_conv_def
          min_probe_def max_probe_def make_node_def calculate_scale_zeropoint_float_def
          calculate_scale_zeropoint_def include_zero_def adjust_range_def
          scale_zeropoint_def py_round_zero)
  show ?thesis
    unfolding main_quantization_params_unfold
        [where inference_session = ex_inference_session, OF load ex_augmented ins shape]
      sess files
      ex_get_intermediate_outputs
    by (simp add: params)
qed

text \<open>
  Claim C9, as stated, fails: for a graph whose only node is a convolution, \<open>main\<close>
  obtains parameters, whereas \<open>calculate_quantization_params\<close> on the original graph
  raises \<open>IndexError\<close> for the statistics that \<open>main\<close> collected. What \<open>main\<close> passes
  is the graph after augmentation, in which the convolution is followed by its min-probe
  node.
\<close>

theorem derivation_graph_counterexample:
  "fst (main_quantization_params ex_inference_session [0, 5, 2] ''model.onnx'' ''naive'' ex_files)
     = Inr [(''X'', (0, Finite (8 / 255)))]
   \<and> ex_files ''model.onnx'' = Some ex_conv_model
   \<and> fst (get_intermediate_outputs ex_files ''model.onnx'' ex_session [0, 5, 2] ''naive'')
       = Inr [(''X'', (Finite 1, Finite 8))]
   \<and> calculate_quantization_params ex_conv_model 8 (Some [(''X'', (Finite 1, Finite 8))])
       = Inl IndexError"
proof -
  have "calculate_quantization_params ex_conv_model 8 (Some [(''X'', (Finite 1, Finite 8))])
          = Inl IndexError"
    by (simp add: calculate_quantization_params_def ex_conv_model_def ex_conv_def)
  with ex_main_quantization_params ex_get_intermediate_outputs show ?thesis
    by (simp add: ex_files_def)
qed

lemma ex_model_augmented:
  "augmented ex_model =
     \<lparr>graph = \<lparr>node = [ex_conv, ex_relu, ex_matmul, min_probe ex_conv, max_probe ex_conv,
                       min_probe ex_matmul, max_probe ex_matmul],
               graph_output = [make_tensor_value_info ''Z'' FLOAT [1, 10],
                               min_probe_output ex_conv, max_probe_output ex_conv,
                               min_probe_output ex_matmul, max_probe_output ex_matmul]\<rparr>\<rparr>"
  by (simp add: augmented_def ex_model_def eligible_def quantization_candidates_def
        ex_conv_def ex_relu_def ex_matmul_def)

lemma ex_model_session:
  "ex_model_inference_session (augmented ex_model) =
     \<lparr>get_inputs = [\<lparr>arg_name = ''x'', arg_shape = [1, 3, 2, 2]\<rparr>],
      get_outputs = [\<lparr>arg_name = ''Z'', arg_shape = [1, 10]\<rparr>,
                     \<lparr>arg_name = ''X_ReduceMin'', arg_shape = []\<rparr>,
                     \<lparr>arg_name = ''X_ReduceMax'', arg_shape = []\<rparr>,
                     \<lparr>arg_name = ''Z_ReduceMin'', arg_shape = []\<rparr>,
                     \<lparr>arg_name = ''Z_ReduceMax'', arg_shape = []\<rparr>],
      run = (\<lambda>x. Inr [Finite x, Finite (x - 1), Finite (x + 3), Finite (x - 3),
                       Finite (x + 7)])\<rparr>"
  by (simp add: ex_model_inference_session_def ex_model_augmented make_tensor_value_info_def
        min_probe_output_def max_probe_output_def ex_conv_def ex_matmul_def)

lemma ex_model_aggregate:
  "aggregate [''Z'', ''X_ReduceMin'', ''X_ReduceMax'', ''Z_ReduceMin'', ''Z_ReduceMax''] (Suc 0)
     [[Finite 0, Finite (- 1), Finite 3, Finite (- 3), Finite 7],
      [Finite 5, Finite 4, Finite 8, Finite 2, Finite 12],
      [Finite 2, Finite 1, Finite 5, Finite (- 1), Finite 9]] ''naive''
     = Inr [(''X'', (Finite (- 1), Finite 8)), (''Z'', (Finite (- 3), Finite 12))]"
  by (simp add: aggregate_def dict_of_def merge_dicts_def dict_getitem_def py_min_def py_max_def
        rpartition_head_def Let_def)

lemma ex_model_get_intermediate_outputs:
  "get_intermediate_outputs (ex_model_files(''augmented_model.onnx'' \<mapsto> augmented ex_model))
     ''model.onnx'' (ex_model_inference_session (augmented ex_model)) [0, 5, 2] ''naive''
     = (Inr [(''X'', (Finite (- 1), Finite 8)), (''Z'', (Finite (- 3), Finite 12))], [0, 5, 2])"
proof -
  have load: "onnx_load (ex_model_files(''augmented_model.onnx'' \<mapsto> augmented ex_model))
                ''model.onnx'' = Inr ex_model"
    by (simp add: onnx_load_def ex_model_files_def)
  have outs: "length (graph_output (graph ex_model)) = Suc 0"
    by (simp add: ex_model_def)
  show ?thesis
    by (simp add: get_intermediate_outputs_def load outs ex_model_session ex_model_aggregate)
qed

lemma ex_model_params:
  "calculate_quantization_params (augmented ex_model) 8
     (Some [(''X'', (Finite (- 1), Finite 8)), (''Z'', (Finite (- 3), Finite 12))])
     = Inr [(''X'', (0, Finite (8 / 255))), (''Z'', (51, Finite (15 / 255)))]"
  by (simp add: calculate_quantization_params_def ex_model_augmented ex_conv_def ex_relu_def
        ex_matmul_def min_probe_def max_probe_def make_node_def
        calculate_scale_zeropoint_float_def calculate_scale_zeropoint_def include_zero_def
        adjust_range_def scale_zeropoint_def py_round_def)

theorem derivation_uses_augmented_graph_witness:
  "main_quantization_params ex_model_inference_session [0, 5, 2] ''model.onnx'' ''naive''
       ex_model_files
     = (Inr [(''X'', (0, Finite (8 / 255))), (''Z'', (51, Finite (15 / 255)))],
        ex_model_files(''augmented_model.onnx'' \<mapsto> augmented ex_model),
        [augmented ex_model], [0, 5, 2])
   \<and> node (graph (augmented ex_model))
       = [ex_conv, ex_relu, ex_matmul, min_probe ex_conv, max_probe ex_conv,
          min_probe ex_matmul, max_probe ex_matmul]
   \<and> node (graph (augmented ex_model)) ! 1 = node (graph ex_model) ! 1
   \<and> node (graph (augmented ex_model)) ! 3 = min_probe ex_conv
   \<and> derived_from (node (graph (augmented ex_model)))
         [(''X'', (Finite (- 1), Finite 8)), (''Z'', (Finite (- 3), Finite 12))]
         ''X'' (0, Finite (8 / 255)) 0
   \<and> derived_from (node (graph (augmented ex_model)))
         [(''X'', (Finite (- 1), Finite 8)), (''Z'', (Finite (- 3), Finite 12))]
         ''Z'' (51, Finite (15 / 255)) 2
   \<and> calculate_quantization_params ex_model 8
         (Some [(''X'', (Finite (- 1), Finite 8)), (''Z'', (Finite (- 3), Finite 12))])
       = Inl IndexError"
proof -
  let ?th = "[(''X'', (Finite (- 1), Finite 8)), (''Z'', (Finite (- 3), Finite 12))]"
  let ?params = "[(''X'', (0 :: 8 word, Finite (8 / 255))), (''Z'', (51, Finite (15 / 255)))]"
  let ?nodes = "node (graph (augmented ex_model))"
  have load: "onnx_load ex_model_files ''model.onnx'' = Inr ex_model"
    by (simp add: onnx_load_def ex_model_files_def)
  have outs: "\<forall>n \<in> set (node (graph ex_model)). eligible n \<longrightarrow> node_output n \<noteq> []"
    by (simp add: ex_model_def ex_conv_def ex_relu_def ex_matmul_def)
  have ins: "get_inputs (ex_model_inference_session (augmented ex_model))
               = \<lparr>arg_name = ''x'', arg_shape = [1, 3, 2, 2]\<rparr> # []"
    by (simp add: ex_model_inference_session_def)
  have shape: "length (arg_shape \<lparr>arg_name = ''x'', arg_shape = [1, 3, 2, 2]\<rparr>) = 4" by simp
  note pipeline = derivation_uses_augmented_graph
      [where inference_session = ex_model_inference_session,
       OF load outs ins shape ex_model_get_intermediate_outputs]
  from pipeline [THEN conjunct1]
  have a: "main_quantization_params ex_model_inference_session [0, 5, 2] ''model.onnx''
             ''naive'' ex_model_files
           = (Inr ?params, ex_model_files(''augmented_model.onnx'' \<mapsto> augmented ex_model),
              [augmented ex_model], [0, 5, 2])"
    by (simp add: ex_model_params)
  have len: "length (node (graph ex_model)) = 3"
    by (simp add: ex_model_def)
  have elig: "filter eligible (node (graph ex_model)) = ex_conv # [ex_matmul]"
    by (simp add: ex_model_def eligible_def quantization_candidates_def
          ex_conv_def ex_relu_def ex_matmul_def)
  from pipeline [THEN conjunct2, THEN conjunct1]
  have b: "?nodes = [ex_conv, ex_relu, ex_matmul, min_probe ex_conv, max_probe ex_conv,
                     min_probe ex_matmul, max_probe ex_matmul]"
    by (simp add: ex_model_augmented)
  from pipeline [THEN conjunct2, THEN conjunct2, THEN conjunct1, rule_format, of 0]
  have c: "?nodes ! 1 = node (graph ex_model) ! 1"
    by (simp add: ex_model_def)
  from pipeline [THEN conjunct2, THEN conjunct2, THEN conjunct2, THEN conjunct1,
                 rule_format, OF elig]
  have d: "?nodes ! 3 = min_probe ex_conv"
    by (simp only: len)
  note entries = pipeline [THEN conjunct2, THEN conjunct2, THEN conjunct2, THEN conjunct2,
                          rule_format, OF ex_model_params, THEN conjunct2, rule_format]
  have lx: "last_producer ?nodes ''X'' 0 \<and> ''X'' \<in> dom (map_of ?th)"
    by (simp add: b last_producer_def produces_def ex_conv_def ex_relu_def ex_matmul_def
          min_probe_def max_probe_def make_node_def)
  have lz: "last_producer ?nodes ''Z'' 2 \<and> ''Z'' \<in> dom (map_of ?th)"
    by (simp add: b last_producer_def produces_def ex_conv_def ex_relu_def ex_matmul_def
          min_probe_def max_probe_def make_node_def)
  from entries [OF lx] have e: "derived_from ?nodes ?th ''X'' (0, Finite (8 / 255)) 0"
    by simp
  from entries [OF lz] have f: "derived_from ?nodes ?th ''Z'' (51, Finite (15 / 255)) 2"
    by simp
  have g: "calculate_quantization_params ex_model 8 (Some ?th) = Inl IndexError"
    by (simp add: calculate_quantization_params_def ex_model_def ex_conv_def ex_relu_def
          ex_matmul_def calculate_scale_zeropoint_float_def calculate_scale_zeropoint_def
          include_zero_def adjust_range_def scale_zeropoint_def)
  from a b c d e f g show ?thesis by (intro conjI)
qed


end
